theory Spec2Isabelle
  imports Complex_Main "HOL-Library.Disjoint_Sets" "HOL-Library.List_Lexorder"
begin

section \<open>Errors\<close>

text \<open>
  The exceptions the C++ sources throw, as values: \<open>std::invalid_argument\<close>,
  \<open>std::overflow_error\<close>, \<open>std::underflow_error\<close>, \<open>std::out_of_range\<close> (thrown by
  \<open>std::map::at\<close>) and \<open>std::runtime_error\<close>.  \<open>OutOfBounds\<close> is no exception: it
  marks an unchecked \<open>operator[]\<close> outside a \<open>std::vector\<close>, where the C++ is undefined.
\<close>

datatype error =
  InvalidArgument | OverflowError | UnderflowError | OutOfRange | RuntimeError | OutOfBounds

section \<open>Set partitions in lexicographic order (dcs/algorithm/partition.hpp)\<close>

text \<open>
  \<open>class lexicographic_partition\<close>: the restricted growth string \<open>kappa_\<close>, the running
  maxima \<open>M_\<close> and the two flags.  \<open>std::size_t\<close> is modelled by \<open>nat\<close>; every subtraction
  of the class is \<open>n_ - 1\<close> with \<open>n_ > 0\<close> (the constructor refuses \<open>n_ = 0\<close>) or
  \<open>i - 1\<close> with \<open>i > 0\<close>, so no subtraction wraps.
\<close>

record lexicographic_partition =
  lp_n :: nat
  lp_kappa :: "nat list"
  lp_M :: "nat list"
  lp_has_prev :: bool
  lp_has_next :: bool

text \<open>The constructor \<open>lexicographic_partition(n, first)\<close>.\<close>

definition lp_last_string :: "nat \<Rightarrow> nat list" where
  "lp_last_string n = fold (\<lambda>i k. k[i := i]) [1..<n] (replicate n 0)"

definition lp_make :: "nat \<Rightarrow> bool \<Rightarrow> error + lexicographic_partition" where
  "lp_make n first =
     (if n = 0 then Inl InvalidArgument
      else Inr \<lparr>lp_n = n,
                lp_kappa = (if first then replicate n 0 else lp_last_string n),
                lp_M = (if first then replicate n 0 else lp_last_string n),
                lp_has_prev = False,
                lp_has_next = True\<rparr>)"

text \<open>\<open>num_subsets()\<close> returns \<open>M_[n_-1]+1\<close>.\<close>

definition lp_num_subsets :: "lexicographic_partition \<Rightarrow> nat" where
  "lp_num_subsets p = lp_M p ! (lp_n p - 1) + 1"

text \<open>
  \<open>operator++\<close>.  The inner loop \<open>for (j = i+1; j < n_; ++j) { kappa_[j] = 0; M_[j] = new_max; }\<close>
  is a fold over the indices; the outer loop \<open>for (i = n_-1; i > 0; --i)\<close> with its
  \<open>break\<close> is the recursion \<open>lp_scan_fwd\<close>.
\<close>

definition lp_fill_fwd :: "nat \<Rightarrow> nat \<Rightarrow> nat \<Rightarrow> nat list \<times> nat list \<Rightarrow> nat list \<times> nat list" where
  "lp_fill_fwd i n new_max = fold (\<lambda>j (k, m). (k[j := 0], m[j := new_max])) [Suc i..<n]"

definition lp_step_fwd :: "nat \<Rightarrow> lexicographic_partition \<Rightarrow> lexicographic_partition" where
  "lp_step_fwd i p =
     (let k1 = (lp_kappa p)[i := lp_kappa p ! i + 1];
          new_max = max (lp_M p ! i) (k1 ! i);
          m1 = (lp_M p)[i := new_max];
          km = lp_fill_fwd i (lp_n p) new_max (k1, m1)
      in p\<lparr>lp_kappa := fst km, lp_M := snd km, lp_has_prev := True\<rparr>)"

fun lp_scan_fwd :: "nat \<Rightarrow> lexicographic_partition \<Rightarrow> lexicographic_partition" where
  "lp_scan_fwd 0 p = p"
| "lp_scan_fwd (Suc j) p =
     (if lp_kappa p ! Suc j \<le> lp_M p ! j then lp_step_fwd (Suc j) p else lp_scan_fwd j p)"

definition lp_increment :: "lexicographic_partition \<Rightarrow> error + lexicographic_partition" where
  "lp_increment p =
     (if \<not> lp_has_next p then Inl OverflowError
      else Inr (lp_scan_fwd (lp_n p - 1)
                  (p\<lparr>lp_has_next := (lp_M p ! (lp_n p - 1) + 1 < lp_n p)\<rparr>)))"

text \<open>
  \<open>operator--\<close>.  The inner loop sets \<open>kappa_[j] = M_[j] = m_i + j - i\<close> for \<open>j = i+1 .. n_-1\<close>.
\<close>

definition lp_fill_bwd :: "nat \<Rightarrow> nat \<Rightarrow> nat \<Rightarrow> nat list \<times> nat list \<Rightarrow> nat list \<times> nat list" where
  "lp_fill_bwd i n m_i = fold (\<lambda>j (k, m). (k[j := m_i + j - i], m[j := m_i + j - i])) [Suc i..<n]"

definition lp_step_bwd :: "nat \<Rightarrow> lexicographic_partition \<Rightarrow> lexicographic_partition" where
  "lp_step_bwd i p =
     (let k1 = (lp_kappa p)[i := lp_kappa p ! i - 1];
          m_i = lp_M p ! (i - 1);
          m1 = (lp_M p)[i := m_i];
          km = lp_fill_bwd i (lp_n p) m_i (k1, m1)
      in p\<lparr>lp_kappa := fst km, lp_M := snd km, lp_has_next := True\<rparr>)"

fun lp_scan_bwd :: "nat \<Rightarrow> lexicographic_partition \<Rightarrow> lexicographic_partition" where
  "lp_scan_bwd 0 p = p"
| "lp_scan_bwd (Suc j) p =
     (if lp_kappa p ! Suc j > 0 then lp_step_bwd (Suc j) p else lp_scan_bwd j p)"


text \<open>
  \<open>operator()(v)\<close>: \<open>subs[kappa_[i]].push_back(v[i])\<close> for \<open>i = 0 .. n_-1\<close>, on
  \<open>num_subsets()\<close> empty containers.  The class keeps \<open>kappa_[i] \<le> M_[n_-1]\<close>, so the
  index is in range (outside it the C++ is undefined; the update of the model does nothing).
\<close>

definition rgs_apply :: "nat list \<Rightarrow> nat \<Rightarrow> 'a list \<Rightarrow> 'a list list" where
  "rgs_apply kappa num v =
     fold (\<lambda>i subs. subs[kappa ! i := subs ! (kappa ! i) @ [v ! i]]) [0..<length v] (replicate num [])"

definition lp_apply :: "lexicographic_partition \<Rightarrow> 'a list \<Rightarrow> error + 'a list list" where
  "lp_apply p v =
     (if length v \<noteq> lp_n p then Inl InvalidArgument
      else Inr (rgs_apply (lp_kappa p) (lp_num_subsets p) v))"

text \<open>
  \<open>next_partition(first, last, part)\<close>: the subsets of the current state, then \<open>++part\<close>
  when \<open>part.has_next()\<close>.
\<close>

definition lp_next_partition ::
  "'a list \<Rightarrow> lexicographic_partition \<Rightarrow> error + ('a list list \<times> lexicographic_partition)" where
  "lp_next_partition v p =
     (case lp_apply p v of
        Inl e \<Rightarrow> Inl e
      | Inr subs \<Rightarrow>
          (if lp_has_next p
           then (case lp_increment p of Inl e \<Rightarrow> Inl e | Inr p' \<Rightarrow> Inr (subs, p'))
           else Inr (subs, p)))"

text \<open>
  The enumeration loop of the callers, \<open>while (partition.has_next()) { subsets =
  next_partition(first, last, partition); ... }\<close>, collecting what each round yields.
  The loop has no syntactic bound: not returning is the value \<open>None\<close>.
\<close>

partial_function (option) lp_loop ::
  "'a list \<Rightarrow> lexicographic_partition \<Rightarrow> 'a list list list \<Rightarrow> (error + 'a list list list) option" where
  "lp_loop v p acc =
     (if \<not> lp_has_next p then Some (Inr acc)
      else (case lp_next_partition v p of
              Inl e \<Rightarrow> Some (Inl e)
            | Inr r \<Rightarrow> lp_loop v (snd r) (acc @ [fst r])))"

definition lp_all_partitions :: "nat \<Rightarrow> (error + nat list list list) option" where
  "lp_all_partitions n =
     (case lp_make n True of
        Inl e \<Rightarrow> Some (Inl e)
      | Inr p \<Rightarrow> lp_loop [0..<n] p [])"

text \<open>
  What \<open>integrity_check\<close> tests, together with the growth restriction of the string:
  \<open>kappa_[0] = 0\<close>, \<open>kappa_[i] \<le> M_[i-1] + 1\<close> and \<open>M_[i] = max(M_[i-1], kappa_[i])\<close>.
\<close>

definition lp_invariant :: "lexicographic_partition \<Rightarrow> bool" where
  "lp_invariant p \<longleftrightarrow>
     lp_n p > 0 \<and> length (lp_kappa p) = lp_n p \<and> length (lp_M p) = lp_n p \<and>
     lp_kappa p ! 0 = 0 \<and> lp_M p ! 0 = 0 \<and>
     (\<forall>i. 0 < i \<and> i < lp_n p \<longrightarrow>
        lp_kappa p ! i \<le> lp_M p ! (i - 1) + 1 \<and>
        lp_M p ! i = max (lp_M p ! (i - 1)) (lp_kappa p ! i))"



section \<open>Subsets in lexicographic order (dcs/algorithm/subset.hpp)\<close>

text \<open>
  \<open>class lexicographic_subset\<close>.  The \<open>boost::dynamic_bitset\<close> of \<open>n_\<close> bits is modelled by the
  number it holds.  \<open>impl_type(n, v)\<close> keeps the low \<open>n\<close> bits of the \<open>unsigned long\<close> \<open>v\<close>;
  \<open>to_ulong()\<close> throws \<open>std::overflow_error\<close> when the bits do not fit an \<open>unsigned long\<close>
  (64 bits here); \<open>count()\<close> is the number of bits set.
\<close>

record lexicographic_subset =
  ls_n :: nat
  ls_empty_set :: bool
  ls_bits :: nat
  ls_has_prev :: bool
  ls_has_next :: bool

definition ulong_size :: nat where
  "ulong_size = 2 ^ 64"

definition bitset :: "nat \<Rightarrow> nat \<Rightarrow> nat" where
  "bitset n v = v mod 2 ^ n"

definition to_ulong :: "nat \<Rightarrow> error + nat" where
  "to_ulong b = (if b < ulong_size then Inr b else Inl OverflowError)"

function count_bits :: "nat \<Rightarrow> nat" where
  "count_bits b = (if b = 0 then 0 else b mod 2 + count_bits (b div 2))"
  by pat_completeness auto
termination
  by (relation "measure id") auto

text \<open>The constructor \<open>lexicographic_subset(n, empty_set)\<close>.\<close>

definition ls_make :: "nat \<Rightarrow> bool \<Rightarrow> error + lexicographic_subset" where
  "ls_make n empty_set =
     (if n = 0 then Inl InvalidArgument
      else Inr \<lparr>ls_n = n, ls_empty_set = empty_set,
                ls_bits = bitset n (if empty_set then 0 else 1),
                ls_has_prev = False, ls_has_next = True\<rparr>)"

text \<open>The bound of \<open>has_prev_\<close>: \<open>(empty_set_ ? 0 : 1)\<close>.\<close>

definition ls_first :: "lexicographic_subset \<Rightarrow> nat" where
  "ls_first s = (if ls_empty_set s then 0 else 1)"

text \<open>
  \<open>operator++\<close>: \<open>has_next_ = bits_.count() < n_; if (has_next_) bits_ = impl_type(n_,
  bits_.to_ulong()+1); has_prev_ = bits_.to_ulong() > (empty_set_ ? 0 : 1);\<close>
\<close>

definition ls_increment :: "lexicographic_subset \<Rightarrow> error + lexicographic_subset" where
  "ls_increment s =
     (if \<not> ls_has_next s then Inl OverflowError
      else
        let has_next = count_bits (ls_bits s) < ls_n s in
        (case (if has_next
               then (case to_ulong (ls_bits s) of
                       Inl e \<Rightarrow> Inl e
                     | Inr v \<Rightarrow> Inr (bitset (ls_n s) ((v + 1) mod ulong_size)))
               else Inr (ls_bits s)) of
           Inl e \<Rightarrow> Inl e
         | Inr bits \<Rightarrow>
             (case to_ulong bits of
                Inl e \<Rightarrow> Inl e
              | Inr v \<Rightarrow> Inr (s\<lparr>ls_bits := bits, ls_has_next := has_next,
                                ls_has_prev := (v > ls_first s)\<rparr>))))"


text \<open>\<open>operator()(v)\<close>: the elements \<open>v[pos]\<close> of the positions whose bit is set, ascending
  (\<open>find_first\<close>, \<open>find_next\<close>).\<close>

definition ls_apply :: "lexicographic_subset \<Rightarrow> 'a list \<Rightarrow> error + 'a list" where
  "ls_apply s v =
     (if length v \<noteq> ls_n s then Inl InvalidArgument
      else Inr (map (\<lambda>pos. v ! pos) (filter (\<lambda>pos. bit (ls_bits s) pos) [0..<ls_n s])))"

text \<open>\<open>next_subset(first, last, subset)\<close>: the current subset, then \<open>++subset\<close>, unguarded.\<close>

definition next_subset ::
  "'a list \<Rightarrow> lexicographic_subset \<Rightarrow> error + ('a list \<times> lexicographic_subset)" where
  "next_subset v s =
     (case ls_apply s v of
        Inl e \<Rightarrow> Inl e
      | Inr subs \<Rightarrow> (case ls_increment s of Inl e \<Rightarrow> Inl e | Inr s' \<Rightarrow> Inr (subs, s')))"



section \<open>Reading a scenario (make_scenario in dcs/fgt/experiment.hpp)\<close>

text \<open>\<open>struct scenario_t\<close>; \<open>RealT\<close> is modelled by \<open>real\<close>.\<close>

record scenario =
  num_fps :: nat
  num_fn_categories :: nat
  num_svc_categories :: nat
  num_vm_categories :: nat
  svc_max_delays :: "real list"
  svc_vm_categories :: "nat list"
  svc_vm_service_rates :: "real list"
  svc_workloads :: "(real \<times> real) list list"
  fp_num_svcs :: "nat list list"
  fp_num_fns :: "nat list list"
  fp_electricity_costs :: "real list"
  fp_coalition_costs :: "real list"
  fp_svc_revenues :: "real list list"
  fp_svc_penalties :: "real list list"
  fp_fn_asleep_costs :: "real list list"
  fp_fn_awake_costs :: "real list list"
  fn_min_powers :: "real list"
  fn_max_powers :: "real list"
  vm_cpu_requirements :: "real list list"
  vm_ram_requirements :: "real list list"

text \<open>
  The model starts after the characters of a line have been read: a line is the key it starts
  with and the numbers that follow, given as a table that answers every index the loops of
  \<open>make_scenario\<close> ask for (so each \<open>iss >> x\<close> succeeds).  \<open>Malformed\<close> is a recognised key
  whose \<open>=\<close> or bracket is missing; \<open>Skipped\<close> is an empty line, a comment or an unknown key.
\<close>

datatype scenario_line =
    NumFps nat
  | NumFnCategories nat
  | NumSvcCategories nat
  | NumVmCategories nat
  | SvcMaxDelays "nat \<Rightarrow> real"
  | SvcVmCategories "nat \<Rightarrow> nat"
  | SvcVmServiceRates "nat \<Rightarrow> real"
  | SvcWorkloads "nat \<Rightarrow> (real \<times> real) list"
  | FpNumSvcs "nat \<Rightarrow> nat \<Rightarrow> nat"
  | FpNumFns "nat \<Rightarrow> nat \<Rightarrow> nat"
  | FpElectricityCosts "nat \<Rightarrow> real"
  | FpFnAsleepCosts "nat \<Rightarrow> nat \<Rightarrow> real"
  | FpFnAwakeCosts "nat \<Rightarrow> nat \<Rightarrow> real"
  | FpCoalitionCosts "nat \<Rightarrow> real"
  | FpSvcRevenues "nat \<Rightarrow> nat \<Rightarrow> real"
  | FpSvcPenalties "nat \<Rightarrow> nat \<Rightarrow> real"
  | FnMinPowers "nat \<Rightarrow> real"
  | FnMaxPowers "nat \<Rightarrow> real"
  | VmCpuRequirements "nat \<Rightarrow> nat \<Rightarrow> real"
  | VmRamRequirements "nat \<Rightarrow> nat \<Rightarrow> real"
  | Malformed
  | Skipped

text \<open>\<open>std::vector::resize(n)\<close>: the first \<open>n\<close> elements are kept, new ones are
  value-initialised.\<close>

definition resize :: "'a list \<Rightarrow> nat \<Rightarrow> 'a \<Rightarrow> 'a list" where
  "resize xs n d = take n xs @ replicate (n - length xs) d"

text \<open>\<open>v.resize(n); for (i = 0; i < n; ++i) iss >> v[i];\<close>\<close>

definition read_vector :: "'a::zero list \<Rightarrow> nat \<Rightarrow> (nat \<Rightarrow> 'a) \<Rightarrow> 'a list" where
  "read_vector xs n f = fold (\<lambda>i v. v[i := f i]) [0..<n] (resize xs n 0)"

text \<open>
  \<open>t.resize(len); for (i = 0; i < rows; ++i) { t[i].resize(cols); for (j ...) iss >> t[i][j]; }\<close>.
  Every table but the two VM tables is resized to the bound of its own loop.  A row index
  outside the resized table is an unchecked \<open>operator[]\<close>.
\<close>

definition read_matrix ::
  "'a::zero list list \<Rightarrow> nat \<Rightarrow> nat \<Rightarrow> nat \<Rightarrow> (nat \<Rightarrow> nat \<Rightarrow> 'a) \<Rightarrow> error + 'a list list" where
  "read_matrix t len rows cols f =
     (if rows > len then Inl OutOfBounds
      else Inr (fold (\<lambda>i t'. t'[i := read_vector (t' ! i) cols (f i)]) [0..<rows] (resize t len [])))"

text \<open>\<open>svc.workloads\<close>: the pairs of row \<open>i\<close> are appended with \<open>push_back\<close>.\<close>

definition read_workloads ::
  "(real \<times> real) list list \<Rightarrow> nat \<Rightarrow> (nat \<Rightarrow> (real \<times> real) list) \<Rightarrow> (real \<times> real) list list" where
  "read_workloads t n f = fold (\<lambda>i t'. t'[i := t' ! i @ f i]) [0..<n] (resize t n [])"

text \<open>One round of the \<open>getline\<close> loop: the branch of the key.\<close>

fun parse_line :: "scenario \<Rightarrow> scenario_line \<Rightarrow> error + scenario" where
  "parse_line s (NumFps n) = Inr (s\<lparr>num_fps := n\<rparr>)"
| "parse_line s (NumFnCategories n) = Inr (s\<lparr>num_fn_categories := n\<rparr>)"
| "parse_line s (NumSvcCategories n) = Inr (s\<lparr>num_svc_categories := n\<rparr>)"
| "parse_line s (NumVmCategories n) = Inr (s\<lparr>num_vm_categories := n\<rparr>)"
| "parse_line s (SvcMaxDelays f) =
     Inr (s\<lparr>svc_max_delays := read_vector (svc_max_delays s) (num_svc_categories s) f\<rparr>)"
| "parse_line s (SvcVmCategories f) =
     Inr (s\<lparr>svc_vm_categories := read_vector (svc_vm_categories s) (num_svc_categories s) f\<rparr>)"
| "parse_line s (SvcVmServiceRates f) =
     Inr (s\<lparr>svc_vm_service_rates := read_vector (svc_vm_service_rates s) (num_svc_categories s) f\<rparr>)"
| "parse_line s (SvcWorkloads f) =
     Inr (s\<lparr>svc_workloads := read_workloads (svc_workloads s) (num_svc_categories s) f\<rparr>)"
| "parse_line s (FpNumSvcs f) =
     (case read_matrix (fp_num_svcs s) (num_fps s) (num_fps s) (num_svc_categories s) f of
        Inl e \<Rightarrow> Inl e | Inr t \<Rightarrow> Inr (s\<lparr>fp_num_svcs := t\<rparr>))"
| "parse_line s (FpNumFns f) =
     (case read_matrix (fp_num_fns s) (num_fps s) (num_fps s) (num_fn_categories s) f of
        Inl e \<Rightarrow> Inl e | Inr t \<Rightarrow> Inr (s\<lparr>fp_num_fns := t\<rparr>))"
| "parse_line s (FpElectricityCosts f) =
     Inr (s\<lparr>fp_electricity_costs := read_vector (fp_electricity_costs s) (num_fps s) f\<rparr>)"
| "parse_line s (FpFnAsleepCosts f) =
     (case read_matrix (fp_fn_asleep_costs s) (num_fps s) (num_fps s) (num_fn_categories s) f of
        Inl e \<Rightarrow> Inl e | Inr t \<Rightarrow> Inr (s\<lparr>fp_fn_asleep_costs := t\<rparr>))"
| "parse_line s (FpFnAwakeCosts f) =
     (case read_matrix (fp_fn_awake_costs s) (num_fps s) (num_fps s) (num_fn_categories s) f of
        Inl e \<Rightarrow> Inl e | Inr t \<Rightarrow> Inr (s\<lparr>fp_fn_awake_costs := t\<rparr>))"
| "parse_line s (FpCoalitionCosts f) =
     Inr (s\<lparr>fp_coalition_costs := read_vector (fp_coalition_costs s) (num_fps s) f\<rparr>)"
| "parse_line s (FpSvcRevenues f) =
     (case read_matrix (fp_svc_revenues s) (num_fps s) (num_fps s) (num_svc_categories s) f of
        Inl e \<Rightarrow> Inl e | Inr t \<Rightarrow> Inr (s\<lparr>fp_svc_revenues := t\<rparr>))"
| "parse_line s (FpSvcPenalties f) =
     (case read_matrix (fp_svc_penalties s) (num_fps s) (num_fps s) (num_svc_categories s) f of
        Inl e \<Rightarrow> Inl e | Inr t \<Rightarrow> Inr (s\<lparr>fp_svc_penalties := t\<rparr>))"
| "parse_line s (FnMinPowers f) =
     Inr (s\<lparr>fn_min_powers := read_vector (fn_min_powers s) (num_fn_categories s) f\<rparr>)"
| "parse_line s (FnMaxPowers f) =
     Inr (s\<lparr>fn_max_powers := read_vector (fn_max_powers s) (num_fn_categories s) f\<rparr>)"
| "parse_line s (VmCpuRequirements f) =
     (case read_matrix (vm_cpu_requirements s) (num_fps s) (num_vm_categories s) (num_fn_categories s) f of
        Inl e \<Rightarrow> Inl e | Inr t \<Rightarrow> Inr (s\<lparr>vm_cpu_requirements := t\<rparr>))"
| "parse_line s (VmRamRequirements f) =
     (case read_matrix (vm_ram_requirements s) (num_fps s) (num_vm_categories s) (num_fn_categories s) f of
        Inl e \<Rightarrow> Inl e | Inr t \<Rightarrow> Inr (s\<lparr>vm_ram_requirements := t\<rparr>))"
| "parse_line s Malformed = Inl RuntimeError"
| "parse_line s Skipped = Inr s"

fun parse_lines :: "scenario \<Rightarrow> scenario_line list \<Rightarrow> error + scenario" where
  "parse_lines s [] = Inr s"
| "parse_lines s (l # ls) =
     (case parse_line s l of Inl e \<Rightarrow> Inl e | Inr s' \<Rightarrow> parse_lines s' ls)"

text \<open>
  The post-parsing consistency checks, in the order of the source; each failure throws
  \<open>std::runtime_error\<close>.  No check reads \<open>svc_vm_service_rates\<close>, \<open>svc_workloads\<close>,
  \<open>vm_cpu_requirements\<close> or \<open>vm_ram_requirements\<close>.
\<close>

definition rows_have :: "'a list list \<Rightarrow> nat \<Rightarrow> nat \<Rightarrow> bool" where
  "rows_have t rows cols = (\<forall>i \<in> set [0..<rows]. length (t ! i) = cols)"

definition post_parsing_checks :: "scenario \<Rightarrow> bool" where
  "post_parsing_checks s =
     (num_fps s > 0 \<and> num_fn_categories s > 0 \<and> num_svc_categories s > 0 \<and> num_vm_categories s > 0
      \<and> length (svc_max_delays s) = num_svc_categories s
      \<and> length (svc_vm_categories s) = num_svc_categories s
      \<and> length (fp_num_svcs s) = num_fps s
      \<and> rows_have (fp_num_svcs s) (num_fps s) (num_svc_categories s)
      \<and> length (fp_num_fns s) = num_fps s
      \<and> rows_have (fp_num_fns s) (num_fps s) (num_fn_categories s)
      \<and> length (fp_electricity_costs s) = num_fps s
      \<and> length (fp_fn_asleep_costs s) = num_fps s
      \<and> rows_have (fp_fn_asleep_costs s) (num_fps s) (num_fn_categories s)
      \<and> length (fp_fn_awake_costs s) = num_fps s
      \<and> rows_have (fp_fn_awake_costs s) (num_fps s) (num_fn_categories s)
      \<and> length (fp_coalition_costs s) = num_fps s
      \<and> length (fp_svc_revenues s) = num_fps s
      \<and> rows_have (fp_svc_revenues s) (num_fps s) (num_svc_categories s)
      \<and> length (fp_svc_penalties s) = num_fps s
      \<and> rows_have (fp_svc_penalties s) (num_fps s) (num_svc_categories s)
      \<and> length (fn_min_powers s) = num_fn_categories s
      \<and> length (fn_max_powers s) = num_fn_categories s)"

text \<open>
  \<open>scenario_t<RealT> s;\<close> leaves the four counts indeterminate and the tables empty; the
  counts the object starts with are arguments of the model.
\<close>

definition fresh_scenario :: "nat \<Rightarrow> nat \<Rightarrow> nat \<Rightarrow> nat \<Rightarrow> scenario" where
  "fresh_scenario a b c d =
     \<lparr>num_fps = a, num_fn_categories = b, num_svc_categories = c, num_vm_categories = d,
      svc_max_delays = [], svc_vm_categories = [], svc_vm_service_rates = [], svc_workloads = [],
      fp_num_svcs = [], fp_num_fns = [], fp_electricity_costs = [], fp_coalition_costs = [],
      fp_svc_revenues = [], fp_svc_penalties = [], fp_fn_asleep_costs = [], fp_fn_awake_costs = [],
      fn_min_powers = [], fn_max_powers = [], vm_cpu_requirements = [], vm_ram_requirements = []\<rparr>"

definition make_scenario :: "scenario \<Rightarrow> scenario_line list \<Rightarrow> error + scenario" where
  "make_scenario s0 ls =
     (case parse_lines s0 ls of
        Inl e \<Rightarrow> Inl e
      | Inr s \<Rightarrow> (if post_parsing_checks s then Inr s else Inl RuntimeError))"

text \<open>The file of two identical providers with one category of everything (the second
  end-to-end scenario of the specification).\<close>

definition two_fp_lines :: "scenario_line list" where
  "two_fp_lines =
     [NumFps 2, NumFnCategories 1, NumSvcCategories 1, NumVmCategories 1,
      SvcMaxDelays (\<lambda>_. 1), SvcVmCategories (\<lambda>_. 0), SvcVmServiceRates (\<lambda>_. 10),
      SvcWorkloads (\<lambda>_. [(100, 5)]),
      FpNumSvcs (\<lambda>_ _. 1), FpNumFns (\<lambda>_ _. 1),
      FpElectricityCosts (\<lambda>_. 1 / 10),
      FpFnAsleepCosts (\<lambda>_ _. 0), FpFnAwakeCosts (\<lambda>_ _. 0),
      FpCoalitionCosts (\<lambda>_. 0),
      FpSvcRevenues (\<lambda>_ _. 1), FpSvcPenalties (\<lambda>_ _. 1),
      FnMinPowers (\<lambda>_. 1 / 10), FnMaxPowers (\<lambda>_. 2 / 10),
      VmCpuRequirements (\<lambda>_ _. 1 / 2), VmRamRequirements (\<lambda>_ _. 1 / 2)]"

section \<open>Floating-point values (dcs/math/detail/float.hpp)\<close>

text \<open>
  \<open>RealT\<close> is \<open>double\<close>, the IEEE 754 binary64 format.  A value is a finite number (the real
  number it denotes; the two zeros are not told apart, no operation of the program does), an
  infinity or a NaN.  Every arithmetic operation of the program on finite values is the exact
  operation followed by \<open>round_double\<close>, the rounding to the nearest binary64 number, ties to
  the even significand, with gradual underflow and with overflow to an infinity.
\<close>

datatype fval = Fin real | PInf | NInf | NaN

text \<open>The number of binary digits of a positive integer.\<close>

function bit_length :: "int \<Rightarrow> nat" where
  "bit_length n = (if n \<le> 0 then 0 else Suc (bit_length (n div 2)))"
  by pat_completeness auto
termination
  by (relation "measure nat") auto

definition pow2 :: "int \<Rightarrow> real" where
  "pow2 e = (if 0 \<le> e then 2 ^ nat e else 1 / 2 ^ nat (- e))"

text \<open>The binade of \<open>a > 0\<close>: the exponent \<open>b\<close> with \<open>2^b \<le> a < 2^(b+1)\<close>.\<close>

definition binade :: "real \<Rightarrow> int" where
  "binade a = (if 1 \<le> a then int (bit_length \<lfloor>a\<rfloor>) - 1
               else - int (bit_length (\<lceil>1 / a\<rceil> - 1)))"

definition round_half_even :: "real \<Rightarrow> int" where
  "round_half_even q =
     (let f = \<lfloor>q\<rfloor>; d = q - of_int f
      in if d < 1 / 2 then f else if 1 / 2 < d then f + 1 else if even f then f else f + 1)"

text \<open>
  Rounding to binary64: 53 significant bits, exponents from \<open>-1022\<close> (below it the spacing
  stays \<open>2^-1074\<close>) to \<open>1023\<close>; a result that rounds to \<open>2^1024\<close> or more is an infinity.
\<close>

definition round_double :: "real \<Rightarrow> fval" where
  "round_double x =
     (if x = 0 then Fin 0
      else
        let a = \<bar>x\<bar>;
            b = binade a;
            e = max b (- 1022);
            u = pow2 (e - 52);
            m = round_half_even (a / u)
        in if 1023 < b \<or> (b = 1023 \<and> 2 ^ 53 \<le> m) then (if 0 < x then PInf else NInf)
           else Fin (if 0 < x then of_int m * u else - (of_int m * u)))"

definition real_min :: real where
  \<comment> \<open>\<open>std::numeric_limits<double>::min()\<close>, the smallest positive normal number\<close>
  "real_min = 1 / 2 ^ 1022"

definition real_epsilon :: real where
  \<comment> \<open>\<open>std::numeric_limits<double>::epsilon()\<close>\<close>
  "real_epsilon = 1 / 2 ^ 52"

fun fneg :: "fval \<Rightarrow> fval" where
  "fneg (Fin a) = Fin (- a)"
| "fneg PInf = NInf"
| "fneg NInf = PInf"
| "fneg NaN = NaN"

text \<open>\<open>std::abs\<close>.\<close>

fun fabs :: "fval \<Rightarrow> fval" where
  "fabs (Fin a) = Fin \<bar>a\<bar>"
| "fabs PInf = PInf"
| "fabs NInf = PInf"
| "fabs NaN = NaN"

fun fadd :: "fval \<Rightarrow> fval \<Rightarrow> fval" where
  "fadd NaN _ = NaN"
| "fadd _ NaN = NaN"
| "fadd (Fin a) (Fin b) = round_double (a + b)"
| "fadd PInf NInf = NaN"
| "fadd NInf PInf = NaN"
| "fadd PInf _ = PInf"
| "fadd _ PInf = PInf"
| "fadd NInf _ = NInf"
| "fadd _ NInf = NInf"

definition fsub :: "fval \<Rightarrow> fval \<Rightarrow> fval" where
  "fsub x y = fadd x (fneg y)"

fun fmul :: "fval \<Rightarrow> fval \<Rightarrow> fval" where
  "fmul NaN _ = NaN"
| "fmul _ NaN = NaN"
| "fmul (Fin a) (Fin b) = round_double (a * b)"
| "fmul PInf (Fin b) = (if b > 0 then PInf else if b < 0 then NInf else NaN)"
| "fmul NInf (Fin b) = (if b > 0 then NInf else if b < 0 then PInf else NaN)"
| "fmul (Fin a) PInf = (if a > 0 then PInf else if a < 0 then NInf else NaN)"
| "fmul (Fin a) NInf = (if a > 0 then NInf else if a < 0 then PInf else NaN)"
| "fmul PInf PInf = PInf"
| "fmul NInf NInf = PInf"
| "fmul PInf NInf = NInf"
| "fmul NInf PInf = NInf"

text \<open>The comparison \<open>x <= y\<close> of IEEE values: false as soon as one side is a NaN.\<close>

fun fle :: "fval \<Rightarrow> fval \<Rightarrow> bool" where
  "fle NaN _ = False"
| "fle _ NaN = False"
| "fle NInf _ = True"
| "fle _ PInf = True"
| "fle (Fin a) (Fin b) = (a \<le> b)"
| "fle _ _ = False"

definition fgt :: "fval \<Rightarrow> fval \<Rightarrow> bool" where
  "fgt x y = (x \<noteq> NaN \<and> y \<noteq> NaN \<and> \<not> fle x y)"

text \<open>\<open>std::max(a, b)\<close> is \<open>(a < b) ? b : a\<close>.\<close>

definition fmax :: "fval \<Rightarrow> fval \<Rightarrow> fval" where
  "fmax a b = (if fgt b a then b else a)"

fun isfinite :: "fval \<Rightarrow> bool" where
  "isfinite (Fin _) = True"
| "isfinite _ = False"

fun isinf :: "fval \<Rightarrow> bool" where
  "isinf PInf = True"
| "isinf NInf = True"
| "isinf _ = False"

text \<open>
  \<open>float_traits<T>::tolerance = static_cast<T>(100) * std::numeric_limits<T>::epsilon()\<close>,
  a product of doubles.
\<close>

definition tolerance :: fval where
  "tolerance = fmul (Fin 100) (Fin real_epsilon)"

text \<open>
  \<open>detail::definitely_greater(x, y, tol)\<close>, line by line as in the source; the last line is
  \<open>(x-y) > (std::max(std::abs(x), std::abs(y))*tol)\<close>, a difference and a product of doubles,
  each rounded, which two infinities of opposite sign also reach (\<open>inf > inf\<close> is false).
\<close>

definition definitely_greater_tol :: "fval \<Rightarrow> fval \<Rightarrow> fval \<Rightarrow> bool" where
  "definitely_greater_tol x y tol =
     (if fle x y then False
      else if x = NaN \<or> y = NaN then False
      else if isinf x \<and> isfinite y then True
      else if isfinite x \<and> isinf y then False
      else fgt (fsub x y) (fmul (fmax (fabs x) (fabs y)) tol))"

text \<open>\<open>float_traits<RealT>::definitely_greater(x, y)\<close> with the default tolerance.\<close>

definition definitely_greater :: "fval \<Rightarrow> fval \<Rightarrow> bool" where
  "definitely_greater x y = definitely_greater_tol x y tolerance"

section \<open>Coalitions, their identifiers and the records of a trigger\<close>

text \<open>
  Modelled from the spec: \<open>gtpack::make_coalition_id\<close>, \<open>gtpack::cid_type\<close> and
  \<open>cooperative_game::coalition(cid).players()\<close> belong to the gtpack library, which is not
  in this repository.  The specification asks that the identifier be a canonical function of
  the player set (equal identifiers for equal sets only); the model takes the bit mask with
  bit \<open>p\<close> set for player \<open>p\<close>, and reads the players of an identifier back in ascending
  order.
\<close>

definition make_coalition_id :: "nat list \<Rightarrow> nat" where
  "make_coalition_id ps = fold (\<lambda>p cid. set_bit p cid) ps 0"

definition coalition_players :: "nat \<Rightarrow> nat \<Rightarrow> nat list" where
  "coalition_players np cid = filter (\<lambda>p. bit cid p) [0..<np]"

text \<open>\<open>struct vm_allocation_t\<close> (dcs/fgt/vm_allocation.hpp).\<close>

record vm_allocation =
  va_solved :: bool
  va_optimal :: bool
  va_objective_value :: fval
  va_fn_vm_allocations :: "bool list list"
  va_fn_power_states :: "bool list"

definition default_vm_allocation :: vm_allocation where
  "default_vm_allocation =
     \<lparr>va_solved = False, va_optimal = False, va_objective_value = NaN,
      va_fn_vm_allocations = [], va_fn_power_states = []\<rparr>"

text \<open>\<open>struct coalition_info_t\<close> and its default constructor
  (dcs/fgt/coalition_formation/commons.hpp); the identifier field, never written by the
  experiment, is left out.\<close>

record coalition_info =
  ci_vm_allocation :: vm_allocation
  ci_value :: fval
  ci_core_empty :: bool
  ci_payoffs :: "nat \<rightharpoonup> fval"
  ci_payoffs_in_core :: bool

definition default_coalition_info :: coalition_info where
  "default_coalition_info =
     \<lparr>ci_vm_allocation = default_vm_allocation, ci_value = NaN, ci_core_empty = True,
      ci_payoffs = Map.empty, ci_payoffs_in_core = False\<rparr>"

text \<open>\<open>struct partition_info_t\<close>; the \<open>std::set\<close> of identifiers is its ascending list.\<close>

record partition_info =
  pi_value :: fval
  pi_coalitions :: "nat list"
  pi_payoffs :: "nat \<rightharpoonup> fval"

definition default_partition_info :: partition_info where
  "default_partition_info = \<lparr>pi_value = NInf, pi_coalitions = [], pi_payoffs = Map.empty\<rparr>"

definition set_insert :: "nat \<Rightarrow> nat list \<Rightarrow> nat list" where
  "set_insert x xs = (if x \<in> set xs then xs else insort x xs)"

text \<open>\<open>std::map::operator[]\<close> inserts a default-constructed record for a new key;
  \<open>std::map::at\<close> throws \<open>std::out_of_range\<close> for an absent one.\<close>

definition visited_ref :: "(nat \<rightharpoonup> coalition_info) \<Rightarrow> nat \<Rightarrow> coalition_info" where
  "visited_ref m cid = (case m cid of None \<Rightarrow> default_coalition_info | Some c \<Rightarrow> c)"

definition visited_update ::
  "(nat \<rightharpoonup> coalition_info) \<Rightarrow> nat \<Rightarrow> (coalition_info \<Rightarrow> coalition_info) \<Rightarrow> (nat \<rightharpoonup> coalition_info)" where
  "visited_update m cid f = m(cid \<mapsto> f (visited_ref m cid))"

definition map_at :: "('k \<rightharpoonup> 'v) \<Rightarrow> 'k \<Rightarrow> error + 'v" where
  "map_at m k = (case m k of None \<Rightarrow> Inl OutOfRange | Some v \<Rightarrow> Inr v)"

section \<open>The coalition loop of a trigger (experiment_t::analyze_coalitions)\<close>

text \<open>
  The members of \<open>experiment_t\<close> the loop reads.  \<open>experiment_t::setup\<close> fills the identity tables from the
  scenario: \<open>fps_\<close> by \<open>std::iota\<close>, one entry of \<open>fn_fps_\<close> per node and one entry of
  \<open>svc_fps_\<close> and \<open>svc_categories_\<close> per service.
\<close>

record experiment_t =
  ex_scen :: scenario
  ex_num_fns :: nat
  ex_num_svcs :: nat
  ex_fps :: "nat list"
  ex_fn_fps :: "nat list"
  ex_fn_categories :: "nat list"
  ex_svc_fps :: "nat list"
  ex_svc_categories :: "nat list"

definition per_category :: "nat list list \<Rightarrow> nat \<Rightarrow> nat \<Rightarrow> (nat \<Rightarrow> nat \<Rightarrow> 'a) \<Rightarrow> 'a list" where
  "per_category counts nfp ncat f =
     concat (map (\<lambda>fp. concat (map (\<lambda>c. replicate (counts ! fp ! c) (f fp c)) [0..<ncat])) [0..<nfp])"

definition experiment_setup :: "scenario \<Rightarrow> experiment_t" where
  "experiment_setup sc =
     \<lparr>ex_scen = sc,
      ex_num_fns = length (per_category (fp_num_fns sc) (num_fps sc) (num_fn_categories sc) (\<lambda>fp c. fp)),
      ex_num_svcs = length (per_category (fp_num_svcs sc) (num_fps sc) (num_svc_categories sc) (\<lambda>fp c. fp)),
      ex_fps = [0..<num_fps sc],
      ex_fn_fps = per_category (fp_num_fns sc) (num_fps sc) (num_fn_categories sc) (\<lambda>fp c. fp),
      ex_fn_categories = per_category (fp_num_fns sc) (num_fps sc) (num_fn_categories sc) (\<lambda>fp c. c),
      ex_svc_fps = per_category (fp_num_svcs sc) (num_fps sc) (num_svc_categories sc) (\<lambda>fp c. fp),
      ex_svc_categories = per_category (fp_num_svcs sc) (num_fps sc) (num_svc_categories sc) (\<lambda>fp c. c)\<rparr>"

text \<open>
  What the loop calls outside this repository: the VM-placement optimizer (CPLEX behind
  \<open>optimal_vm_allocation_solver_t\<close>, as a function of the nodes and VMs of the coalition) and
  gtpack's \<open>shapley_value\<close>, \<open>find_core(...).empty()\<close> and \<open>belongs_to_core\<close> on the sub-game of
  the coalition (as functions of the stored characteristic function and the players).
\<close>

record collaborators =
  solve :: "nat list \<Rightarrow> nat list \<Rightarrow> vm_allocation"
  shapley_value :: "(nat \<Rightarrow> fval) \<Rightarrow> nat list \<Rightarrow> (nat \<rightharpoonup> fval)"
  core_empty :: "(nat \<Rightarrow> fval) \<Rightarrow> nat list \<Rightarrow> bool"
  belongs_to_core :: "(nat \<Rightarrow> fval) \<Rightarrow> nat list \<Rightarrow> (nat \<rightharpoonup> fval) \<Rightarrow> bool"

text \<open>
  The state the loop writes: the characteristic function of \<open>game\<close> (what \<open>game.value(cid)\<close>
  answers), \<open>visited_coalitions\<close> and \<open>fp_interval_alone_profits\<close>.
\<close>

record trigger_state =
  game :: "nat \<Rightarrow> fval"
  visited_coalitions :: "nat \<rightharpoonup> coalition_info"
  fp_interval_alone_profits :: "fval list"

text \<open>The nodes, services and VMs of a coalition, in the order of the \<open>push_back\<close>s.\<close>

definition coal_fns :: "experiment_t \<Rightarrow> nat list \<Rightarrow> nat list" where
  "coal_fns ex coal_fps =
     concat (map (\<lambda>fp. filter (\<lambda>fn. ex_fn_fps ex ! fn = fp) [0..<ex_num_fns ex]) coal_fps)"

definition coal_svcs :: "experiment_t \<Rightarrow> nat list \<Rightarrow> nat list" where
  "coal_svcs ex coal_fps =
     concat (map (\<lambda>fp. filter (\<lambda>svc. ex_svc_fps ex ! svc = fp) [0..<ex_num_svcs ex]) coal_fps)"

definition coal_vms :: "experiment_t \<Rightarrow> nat list \<Rightarrow> nat list \<Rightarrow> nat list" where
  "coal_vms ex vm_svcs coal_fps =
     concat (map (\<lambda>svc. filter (\<lambda>vm. vm_svcs ! vm = svc) [0..<length vm_svcs]) (coal_svcs ex coal_fps))"

text \<open>\<open>revenue += scen_.fp_svc_revenues[fp][svc_cat]\<close> over \<open>coal_svcs\<close>, from
  \<open>RealT revenue = 0\<close>; \<open>cost -= scen_.fp_coalition_costs[fp]\<close> over \<open>coal_fps\<close> when there is
  more than one, from the objective; \<open>(revenue-cost)*coalition_duration\<close>.  Each \<open>+=\<close>, \<open>-=\<close>,
  \<open>-\<close> and \<open>*\<close> is one rounded operation; the tables of the scenario and the duration hold
  finite doubles.\<close>

definition coalition_revenue :: "experiment_t \<Rightarrow> nat list \<Rightarrow> fval" where
  "coalition_revenue ex svcs =
     fold (\<lambda>svc revenue.
             fadd revenue (Fin (fp_svc_revenues (ex_scen ex) ! (ex_svc_fps ex ! svc) ! (ex_svc_categories ex ! svc))))
          svcs (Fin 0)"

definition coalition_cost :: "experiment_t \<Rightarrow> nat list \<Rightarrow> fval \<Rightarrow> fval" where
  "coalition_cost ex coal_fps objective_value =
     (if length coal_fps > 1
      then fold (\<lambda>fp cost. fsub cost (Fin (fp_coalition_costs (ex_scen ex) ! fp))) coal_fps objective_value
      else objective_value)"

definition coalition_profit :: "experiment_t \<Rightarrow> real \<Rightarrow> nat list \<Rightarrow> fval \<Rightarrow> fval" where
  "coalition_profit ex coalition_duration coal_fps objective_value =
     fmul (fsub (coalition_revenue ex (coal_svcs ex coal_fps))
                (coalition_cost ex coal_fps objective_value))
          (Fin coalition_duration)"

text \<open>The body of the loop for the coalition \<open>coal_fps\<close>.\<close>

definition visit_coalition ::
  "experiment_t \<Rightarrow> collaborators \<Rightarrow> real \<Rightarrow> nat list \<Rightarrow> nat list \<Rightarrow> trigger_state \<Rightarrow> trigger_state" where
  "visit_coalition ex col coalition_duration vm_svcs coal_fps st =
     (let cid = make_coalition_id coal_fps;
          vm_alloc = solve col (coal_fns ex coal_fps) (coal_vms ex vm_svcs coal_fps);
          v1 = visited_update (visited_coalitions st) cid (\<lambda>c. c\<lparr>ci_vm_allocation := vm_alloc\<rparr>)
      in if va_solved vm_alloc
         then
           let profit = coalition_profit ex coalition_duration coal_fps (va_objective_value vm_alloc);
               g = (game st)(cid := profit);
               v2 = visited_update v1 cid (\<lambda>c. c\<lparr>ci_value := profit\<rparr>);
               alone = (if length coal_fps = 1
                        then (fp_interval_alone_profits st)[coal_fps ! 0 := profit]
                        else fp_interval_alone_profits st);
               v3 = (if core_empty col g coal_fps
                     then visited_update v2 cid (\<lambda>c. c\<lparr>ci_core_empty := True, ci_payoffs_in_core := False\<rparr>)
                     else visited_update v2 cid (\<lambda>c. c\<lparr>ci_core_empty := False\<rparr>));
               coal_payoffs = shapley_value col g coal_fps;
               v4 = visited_update v3 cid (\<lambda>c. c\<lparr>ci_payoffs := coal_payoffs\<rparr>);
               v5 = (if \<not> ci_core_empty (visited_ref v4 cid)
                     then visited_update v4 cid
                            (\<lambda>c. c\<lparr>ci_payoffs_in_core := belongs_to_core col g coal_fps coal_payoffs\<rparr>)
                     else v4)
           in st\<lparr>game := g, visited_coalitions := v5, fp_interval_alone_profits := alone\<rparr>
         else
           let v2 = visited_update v1 cid (\<lambda>c. c\<lparr>ci_core_empty := True, ci_payoffs_in_core := False\<rparr>);
               g = (game st)(cid := Fin (- real_min))
           in st\<lparr>game := g, visited_coalitions := v2\<rparr>)"

text \<open>\<open>while (subset.has_next()) { coal_fps = next_subset(fps_.begin(), fps_.end(), subset);
  ... }\<close>\<close>

partial_function (option) coalition_loop ::
  "experiment_t \<Rightarrow> collaborators \<Rightarrow> real \<Rightarrow> nat list \<Rightarrow> lexicographic_subset \<Rightarrow> trigger_state
     \<Rightarrow> (error + trigger_state) option" where
  "coalition_loop ex col coalition_duration vm_svcs sub st =
     (if \<not> ls_has_next sub then Some (Inr st)
      else (case next_subset (ex_fps ex) sub of
              Inl e \<Rightarrow> Some (Inl e)
            | Inr r \<Rightarrow>
                coalition_loop ex col coalition_duration vm_svcs (snd r)
                  (visit_coalition ex col coalition_duration vm_svcs (fst r) st)))"

text \<open>The trigger up to the end of the loop: fresh \<open>visited_coalitions\<close>, the alone profits
  at NaN, \<open>lexicographic_subset subset(scen_.num_fps, false)\<close>.  What the fresh game answers
  for an identifier never stored is gtpack's matter: the argument \<open>game0\<close>.\<close>

definition enumerate_coalitions ::
  "experiment_t \<Rightarrow> collaborators \<Rightarrow> real \<Rightarrow> nat list \<Rightarrow> (nat \<Rightarrow> fval) \<Rightarrow> (error + trigger_state) option" where
  "enumerate_coalitions ex col coalition_duration vm_svcs game0 =
     (case ls_make (num_fps (ex_scen ex)) False of
        Inl e \<Rightarrow> Some (Inl e)
      | Inr sub \<Rightarrow>
          coalition_loop ex col coalition_duration vm_svcs sub
            \<lparr>game = game0, visited_coalitions = Map.empty,
             fp_interval_alone_profits = replicate (num_fps (ex_scen ex)) NaN\<rparr>)"

text \<open>
  The visits of the loop written out: the coalition of the bit mask \<open>c\<close> over \<open>n\<close> providers
  has the players whose bit is set, and the masks are visited in the order of the list.
\<close>

definition visit_range ::
  "experiment_t \<Rightarrow> collaborators \<Rightarrow> real \<Rightarrow> nat list \<Rightarrow> nat \<Rightarrow> nat list \<Rightarrow> trigger_state \<Rightarrow> trigger_state" where
  "visit_range ex col coalition_duration vm_svcs n cs st =
     fold (\<lambda>c. visit_coalition ex col coalition_duration vm_svcs (filter (bit c) [0..<n])) cs st"

text \<open>The payoff of player \<open>pid\<close> in the coalition \<open>cid\<close>, when both are recorded.\<close>

definition payoff_of :: "(nat \<rightharpoonup> coalition_info) \<Rightarrow> nat \<Rightarrow> nat \<Rightarrow> fval option" where
  "payoff_of vis cid pid = (case vis cid of None \<Rightarrow> None | Some c \<Rightarrow> ci_payoffs c pid)"

section \<open>Nash-stable partitions (dcs/fgt/coalition_formation/nash_stable.hpp)\<close>

text \<open>
  The preference test written twice in \<open>check_nash_stability\<close>:
  \<open>visited_coalitions.at(cid2).payoffs.count(pid) == 0 ||
  definitely_greater(visited_coalitions.at(cid2).payoffs.at(pid),
  visited_coalitions.at(cid1).payoffs.at(pid))\<close>.  It answers \<open>true\<close> when the partition is
  to be rejected; each \<open>at\<close> may throw.
\<close>

definition deviation_preferred ::
  "(nat \<rightharpoonup> coalition_info) \<Rightarrow> nat \<Rightarrow> nat \<Rightarrow> nat \<Rightarrow> error + bool" where
  "deviation_preferred vis cid1 cid2 pid =
     (case map_at vis cid2 of
        Inl e \<Rightarrow> Inl e
      | Inr c2 \<Rightarrow>
          (if ci_payoffs c2 pid = None then Inr True
           else (case map_at (ci_payoffs c2) pid of
                   Inl e \<Rightarrow> Inl e
                 | Inr a \<Rightarrow>
                     (case map_at vis cid1 of
                        Inl e \<Rightarrow> Inl e
                      | Inr c1 \<Rightarrow>
                          (case map_at (ci_payoffs c1) pid of
                             Inl e \<Rightarrow> Inl e
                           | Inr b \<Rightarrow> Inr (definitely_greater a b))))))"

text \<open>The loop over the coalitions \<open>cid2\<close> of the partition for the player \<open>pid\<close> of \<open>cid1\<close>:
  the value of \<open>nash_stable\<close> when the loop is left.\<close>

fun check_alternatives ::
  "nat \<Rightarrow> (nat \<rightharpoonup> coalition_info) \<Rightarrow> nat \<Rightarrow> nat \<Rightarrow> nat list \<Rightarrow> error + bool" where
  "check_alternatives np vis cid1 pid [] = Inr True"
| "check_alternatives np vis cid1 pid (cid2 # rest) =
     (if cid1 = cid2 then check_alternatives np vis cid1 pid rest
      else (case deviation_preferred vis cid1
                   (make_coalition_id (coalition_players np cid2 @ [pid])) pid of
              Inl e \<Rightarrow> Inl e
            | Inr preferred \<Rightarrow>
                (if preferred then Inr False else check_alternatives np vis cid1 pid rest)))"

text \<open>One player: the alternatives of the partition, then the singleton \<open>make_coalition_id(pid)\<close>.\<close>

definition check_player ::
  "nat \<Rightarrow> (nat \<rightharpoonup> coalition_info) \<Rightarrow> nat list \<Rightarrow> nat \<Rightarrow> nat \<Rightarrow> error + bool" where
  "check_player np vis part cid1 pid =
     (case check_alternatives np vis cid1 pid part of
        Inl e \<Rightarrow> Inl e
      | Inr nash_stable \<Rightarrow>
          (if nash_stable
           then (case deviation_preferred vis cid1 (make_coalition_id [pid]) pid of
                   Inl e \<Rightarrow> Inl e
                 | Inr preferred \<Rightarrow> Inr (\<not> preferred))
           else Inr False))"

fun check_players ::
  "nat \<Rightarrow> (nat \<rightharpoonup> coalition_info) \<Rightarrow> nat list \<Rightarrow> nat \<Rightarrow> nat list \<Rightarrow> error + bool" where
  "check_players np vis part cid1 [] = Inr True"
| "check_players np vis part cid1 (pid # pids) =
     (case check_player np vis part cid1 pid of
        Inl e \<Rightarrow> Inl e
      | Inr nash_stable \<Rightarrow>
          (if nash_stable then check_players np vis part cid1 pids else Inr False))"

fun check_coalitions ::
  "nat \<Rightarrow> (nat \<rightharpoonup> coalition_info) \<Rightarrow> nat list \<Rightarrow> nat list \<Rightarrow> error + bool" where
  "check_coalitions np vis part [] = Inr True"
| "check_coalitions np vis part (cid1 # cids) =
     (case check_players np vis part cid1 (coalition_players np cid1) of
        Inl e \<Rightarrow> Inl e
      | Inr nash_stable \<Rightarrow>
          (if nash_stable then check_coalitions np vis part cids else Inr False))"

text \<open>\<open>check_nash_stability(game, visited_coalitions, cid_first, cid_last)\<close>;
  \<open>part\<close> is the \<open>std::set\<close> named \<open>partition\<close>, built from the range.\<close>

definition check_nash_stability ::
  "nat \<Rightarrow> (nat \<rightharpoonup> coalition_info) \<Rightarrow> nat list \<Rightarrow> error + bool" where
  "check_nash_stability np vis cids = check_coalitions np vis (sort (remdups cids)) cids"

text \<open>The candidate built from the subsets of one partition in \<open>operator()\<close>.\<close>

definition candidate_coalition ::
  "(nat \<Rightarrow> fval) \<Rightarrow> (nat \<rightharpoonup> coalition_info) \<Rightarrow> nat list \<Rightarrow> partition_info \<Rightarrow> partition_info" where
  "candidate_coalition g vis sub cand =
     (let cid = make_coalition_id sub
      in if vis cid = None then cand
         else cand\<lparr>pi_value := fadd (pi_value cand) (g cid),
                   pi_coalitions := set_insert cid (pi_coalitions cand),
                   pi_payoffs :=
                     fold (\<lambda>pid m. m(pid \<mapsto> (case ci_payoffs (visited_ref vis cid) pid of
                                                 Some v \<Rightarrow> v | None \<Rightarrow> NaN)))
                          sub (pi_payoffs cand)\<rparr>)"

definition candidate_partition ::
  "(nat \<Rightarrow> fval) \<Rightarrow> (nat \<rightharpoonup> coalition_info) \<Rightarrow> nat list list \<Rightarrow> partition_info" where
  "candidate_partition g vis subsets =
     fold (candidate_coalition g vis) subsets (default_partition_info\<lparr>pi_value := Fin 0\<rparr>)"

text \<open>\<open>nash_stable_partition_selector_t::operator()\<close>: the loop over the partitions of the
  players \<open>0 .. np-1\<close> of the game.\<close>

partial_function (option) nash_loop ::
  "nat \<Rightarrow> (nat \<Rightarrow> fval) \<Rightarrow> (nat \<rightharpoonup> coalition_info) \<Rightarrow> lexicographic_partition
     \<Rightarrow> partition_info list \<Rightarrow> (error + partition_info list) option" where
  "nash_loop np g vis p best_partitions =
     (if \<not> lp_has_next p then Some (Inr best_partitions)
      else (case lp_next_partition [0..<np] p of
              Inl e \<Rightarrow> Some (Inl e)
            | Inr r \<Rightarrow>
                (case check_nash_stability np vis
                        (pi_coalitions (candidate_partition g vis (fst r))) of
                   Inl e \<Rightarrow> Some (Inl e)
                 | Inr nash_stable \<Rightarrow>
                     nash_loop np g vis (snd r)
                       (if nash_stable
                        then best_partitions @ [candidate_partition g vis (fst r)]
                        else best_partitions))))"

definition nash_stable_partition_selector ::
  "nat \<Rightarrow> (nat \<Rightarrow> fval) \<Rightarrow> (nat \<rightharpoonup> coalition_info) \<Rightarrow> (error + partition_info list) option" where
  "nash_stable_partition_selector np g vis =
     (case lp_make np True of
        Inl e \<Rightarrow> Some (Inl e)
      | Inr p \<Rightarrow> nash_loop np g vis p [])"

text \<open>\<open>analyze_coalitions\<close> from the coalition loop to \<open>formed_coalitions.best_partitions\<close>:
  an exception of either part leaves the function.\<close>

definition form_coalitions ::
  "experiment_t \<Rightarrow> collaborators \<Rightarrow> real \<Rightarrow> nat list \<Rightarrow> (nat \<Rightarrow> fval)
     \<Rightarrow> (error + trigger_state \<times> partition_info list) option" where
  "form_coalitions ex col coalition_duration vm_svcs game0 =
     (case enumerate_coalitions ex col coalition_duration vm_svcs game0 of
        None \<Rightarrow> None
      | Some (Inl e) \<Rightarrow> Some (Inl e)
      | Some (Inr st) \<Rightarrow>
          (case nash_stable_partition_selector (num_fps (ex_scen ex)) (game st) (visited_coalitions st) of
             None \<Rightarrow> None
           | Some (Inl e) \<Rightarrow> Some (Inl e)
           | Some (Inr best) \<Rightarrow> Some (Inr (st, best))))"

text \<open>
  What a Nash-stable partition promises, over the recorded payoffs: every player \<open>pid\<close> of
  every coalition \<open>cid1\<close> of the partition has a payoff \<open>b\<close> there, and the payoff of \<open>pid\<close>
  in any other coalition of the partition joined by \<open>pid\<close>, and in the singleton of \<open>pid\<close>,
  is recorded and not definitely greater than \<open>b\<close>.
\<close>

definition no_profitable_deviation :: "nat \<Rightarrow> (nat \<rightharpoonup> coalition_info) \<Rightarrow> nat list \<Rightarrow> bool" where
  "no_profitable_deviation np vis cids =
     (\<forall>cid1 \<in> set cids. \<forall>pid \<in> set (coalition_players np cid1).
        \<exists>b. payoff_of vis cid1 pid = Some b \<and>
          (\<forall>cid2 \<in> set cids. cid2 \<noteq> cid1 \<longrightarrow>
             (\<exists>a. payoff_of vis (make_coalition_id (coalition_players np cid2 @ [pid])) pid = Some a \<and>
                  \<not> definitely_greater a b)) \<and>
          (\<exists>a. payoff_of vis (make_coalition_id [pid]) pid = Some a \<and> \<not> definitely_greater a b))"

section \<open>A trigger whose grand coalition is infeasible\<close>

text \<open>
  The fourth end-to-end scenario of the specification: two providers with one node and one
  service each; the optimizer solves each provider alone and reports \<open>solved = false\<close> for
  the two together.  The payoff division gives a provider alone the value of its coalition.
\<close>

definition two_fp_scenario :: scenario where
  "two_fp_scenario =
     (case make_scenario (fresh_scenario 0 0 0 0) two_fp_lines of
        Inr s \<Rightarrow> s
      | Inl e \<Rightarrow> fresh_scenario 0 0 0 0)"

definition infeasible_grand :: collaborators where
  "infeasible_grand =
     \<lparr>solve = (\<lambda>fns vms.
                 if length fns > 1 then default_vm_allocation
                 else \<lparr>va_solved = True, va_optimal = True, va_objective_value = Fin (1 / 4),
                       va_fn_vm_allocations = [[True]], va_fn_power_states = [True]\<rparr>),
      shapley_value = (\<lambda>g ps. case ps of [p] \<Rightarrow> [p \<mapsto> g (make_coalition_id [p])] | _ \<Rightarrow> Map.empty),
      core_empty = (\<lambda>g ps. False),
      belongs_to_core = (\<lambda>g ps x. True)\<rparr>"

text \<open>
  A trigger whose coalitions are all solved, over two providers with two services and one
  service: every service brings the double nearest to 0.1, joining a coalition costs the
  providers 0.25 and 0.5, and the optimizer answers the objective 0.125 for every coalition.
\<close>

definition pair_scenario :: scenario where
  "pair_scenario =
     two_fp_scenario
       \<lparr>fp_num_svcs := [[2], [1]],
        fp_coalition_costs := [1 / 4, 1 / 2],
        fp_svc_revenues := [[3602879701896397 / 2 ^ 55], [3602879701896397 / 2 ^ 55]]\<rparr>"

definition always_solved :: collaborators where
  "always_solved =
     \<lparr>solve = (\<lambda>fns vms.
                 \<lparr>va_solved = True, va_optimal = True, va_objective_value = Fin (1 / 8),
                  va_fn_vm_allocations = [], va_fn_power_states = []\<rparr>),
      shapley_value = (\<lambda>g ps. Map.empty),
      core_empty = (\<lambda>g ps. True),
      belongs_to_core = (\<lambda>g ps x. False)\<rparr>"

text \<open>
  Two providers whose coalitions are all solved and who are paid nearly the same alone and
  together: alone each is paid \<open>1.24 - 124 * 2^-52\<close>, together each is paid the double
  nearest to 1.24.
\<close>

definition solved_info :: "(nat \<rightharpoonup> fval) \<Rightarrow> fval \<Rightarrow> coalition_info" where
  "solved_info payoffs v =
     \<lparr>ci_vm_allocation = default_vm_allocation\<lparr>va_solved := True, va_optimal := True, va_objective_value := Fin 0\<rparr>,
      ci_value = v, ci_core_empty = False, ci_payoffs = payoffs, ci_payoffs_in_core = True\<rparr>"

definition near_tie_visited :: "nat \<rightharpoonup> coalition_info" where
  "near_tie_visited =
     [Suc 0 \<mapsto> solved_info [0 \<mapsto> Fin (5584463537939291 / 2 ^ 52)] (Fin (5584463537939291 / 2 ^ 52)),
      2 \<mapsto> solved_info [Suc 0 \<mapsto> Fin (5584463537939291 / 2 ^ 52)] (Fin (5584463537939291 / 2 ^ 52)),
      3 \<mapsto> solved_info [0 \<mapsto> Fin (5584463537939415 / 2 ^ 52), Suc 0 \<mapsto> Fin (5584463537939415 / 2 ^ 52)]
             (Fin (5584463537939415 / 2 ^ 51))]"
section \<open>The simulation driver (dcs/fgt/simulator.hpp, dcs/fgt/experiment.hpp)\<close>

text \<open>
  \<open>ci_mean_estimator_t\<close> lives in \<open>dcs/fgt/statistics.hpp\<close>; the driver reads two
  observations of it, \<open>done()\<close> and \<open>unstable()\<close>, which are the fields of the record.
\<close>

record ci_mean_estimator =
  cme_done :: bool
  cme_unstable :: bool

text \<open>
  The fields of \<open>simulator_t\<close> and \<open>experiment_t\<close> that decide the end of the simulation.
\<close>

record simulator =
  sim_max_num_rep :: nat
  sim_num_rep :: nat
  sim_done :: bool
  fp_coal_profit_ci_stats :: "ci_mean_estimator list"
  fp_alone_profit_ci_stats :: "ci_mean_estimator list"

text \<open>\<open>experiment_t::check_stats(first, last)\<close>: the first estimator that is neither done nor
  unstable returns \<open>false\<close>.\<close>

fun check_stats :: "ci_mean_estimator list \<Rightarrow> bool" where
  "check_stats [] = True"
| "check_stats (e # es) = (if \<not> cme_done e \<and> \<not> cme_unstable e then False else check_stats es)"

text \<open>\<open>experiment_t::do_check_end_of_simulation\<close>: only the coalition-profit estimators are
  passed to \<open>check_stats\<close>; the line for the alone-profit estimators is commented out.\<close>

definition do_check_end_of_simulation :: "simulator \<Rightarrow> bool" where
  "do_check_end_of_simulation s = check_stats (fp_coal_profit_ci_stats s)"

text \<open>\<open>simulator_t::check_end_of_simulation\<close>.\<close>

definition check_end_of_simulation :: "simulator \<Rightarrow> bool" where
  "check_end_of_simulation s =
     (sim_done s \<or> sim_num_rep s \<ge> sim_max_num_rep s \<or> do_check_end_of_simulation s)"

text \<open>
  The loop of \<open>simulator_t::run\<close>, \<open>while (!check_end_of_simulation()) { ... }\<close>.  One round
  (initialise the replication, fire its events, finalise it) is the parameter \<open>replication\<close>.
  The loop need not end, its result is an option.
\<close>

partial_function (option) run_loop :: "(simulator \<Rightarrow> simulator) \<Rightarrow> simulator \<Rightarrow> simulator option" where
  "run_loop replication s =
     (if check_end_of_simulation s then Some s else run_loop replication (replication s))"

text \<open>The claimed end condition: every estimator of both families done or unstable, or the
  replication budget reached.\<close>

definition claimed_end_of_simulation :: "simulator \<Rightarrow> bool" where
  "claimed_end_of_simulation s =
     ((list_all (\<lambda>e. cme_done e \<or> cme_unstable e) (fp_coal_profit_ci_stats s) \<and>
       list_all (\<lambda>e. cme_done e \<or> cme_unstable e) (fp_alone_profit_ci_stats s))
      \<or> sim_num_rep s \<ge> sim_max_num_rep s)"

section \<open>The event loop of a replication (dcs/fgt/simulator.hpp)\<close>





text \<open>
  The members of \<open>simulator_t\<close> that the loop of a replication reads and writes, and the
  members of the derived class.
\<close>

record ('q, 'u) replication =
  max_rep_len :: real
  sim_time :: real
  evt_queue :: 'q
  members :: 'u
















section \<open>Proofs: evaluating the double arithmetic\<close>

declare bit_length.simps [simp del]

lemma bit_length_numeral [simp]:
  "bit_length 0 = 0"
  "bit_length 1 = 1"
  "bit_length (numeral (Num.Bit0 n)) = Suc (bit_length (numeral n))"
  "bit_length (numeral (Num.Bit1 n)) = Suc (bit_length (numeral n))"
  "bit_length (- numeral n) = 0"
proof -
  show "bit_length 0 = 0" by (simp add: bit_length.simps)
  show "bit_length 1 = 1" by (simp add: bit_length.simps)
  have "(0::int) < numeral (Num.Bit0 n)" by simp
  moreover have "(numeral (Num.Bit0 n) :: int) div 2 = numeral n" by simp
  ultimately show "bit_length (numeral (Num.Bit0 n)) = Suc (bit_length (numeral n))"
    by (subst bit_length.simps) simp
  have "(0::int) < numeral (Num.Bit1 n)" by simp
  moreover have "(numeral (Num.Bit1 n) :: int) div 2 = numeral n" by simp
  ultimately show "bit_length (numeral (Num.Bit1 n)) = Suc (bit_length (numeral n))"
    by (subst bit_length.simps) simp
  show "bit_length (- numeral n) = 0" by (simp add: bit_length.simps)
qed

lemmas float_eval = round_double_def binade_def pow2_def round_half_even_def Let_def

lemmas greater_eval = definitely_greater_def definitely_greater_tol_def fmax_def fgt_def fsub_def

lemma tolerance_eq: "tolerance = Fin (100 / 2 ^ 52)"
  by (simp add: tolerance_def real_epsilon_def float_eval)

text \<open>
  Rounding at work: three revenues of 0.1 (the double nearest to it) add up to
  0.30000000000000004, the sum of two large numbers overflows, and a difference of exactly
  \<open>124 * 2^-52\<close> is not definitely greater at 1.24, where the rounded tolerance bound is
  \<open>124 * 2^-52\<close> as well.
\<close>

lemma tenth_thrice:
  "fadd (fadd (fadd (Fin 0) (Fin (3602879701896397 / 2 ^ 55))) (Fin (3602879701896397 / 2 ^ 55)))
        (Fin (3602879701896397 / 2 ^ 55)) = Fin (5404319552844596 / 2 ^ 54)"
  by (simp add: float_eval)

lemma sum_overflows: "fadd (Fin (2 ^ 1023)) (Fin (2 ^ 1023)) = PInf"
  by (simp add: float_eval)

lemma near_tie_not_greater:
  "\<not> definitely_greater (Fin (5584463537939415 / 2 ^ 52)) (Fin (5584463537939291 / 2 ^ 52))"
  "\<not> definitely_greater (Fin (5584463537939291 / 2 ^ 52)) (Fin (5584463537939415 / 2 ^ 52))"
  "\<not> definitely_greater (Fin (5584463537939291 / 2 ^ 52)) (Fin (5584463537939291 / 2 ^ 52))"
  "\<not> definitely_greater (Fin (5584463537939415 / 2 ^ 52)) (Fin (5584463537939415 / 2 ^ 52))"
  by (simp_all add: greater_eval tolerance_eq float_eval)

section \<open>Proofs: the subset iterator and the coalition identifiers\<close>

declare count_bits.simps [simp del]

lemma count_bits_bound:
  "b < 2 ^ n \<Longrightarrow> count_bits b \<le> n \<and> (count_bits b = n \<longleftrightarrow> b = 2 ^ n - 1)"
proof (induction n arbitrary: b)
  case 0
  then show ?case by (simp add: count_bits.simps)
next
  case (Suc n)
  define m :: nat where "m = 2 ^ n"
  have m: "m \<ge> 1" "b < 2 * m" using Suc.prems by (simp_all add: m_def)
  then have d: "b div 2 < 2 ^ n" unfolding m_def by simp
  from Suc.IH[OF d] have IH: "count_bits (b div 2) \<le> n"
    "count_bits (b div 2) = n \<longleftrightarrow> b div 2 = m - 1" by (simp_all add: m_def)
  show ?case
  proof (cases "b = 0")
    case True
    have "2 ^ Suc n - 1 = 2 * m - 1" by (simp add: m_def)
    with True m show ?thesis by (simp add: count_bits.simps)
  next
    case False
    have cb: "count_bits b = b mod 2 + count_bits (b div 2)"
      using False by (subst count_bits.simps) simp
    have e: "(b mod 2 = 1 \<and> b div 2 = m - 1) \<longleftrightarrow> b = 2 * m - 1"
      using m by presburger
    have "2 ^ Suc n - 1 = 2 * m - 1" by (simp add: m_def)
    with IH cb e show ?thesis by (auto simp: m_def[symmetric])
  qed
qed


lemma count_bits_less_iff: "b < 2 ^ n \<Longrightarrow> count_bits b < n \<longleftrightarrow> b \<noteq> 2 ^ n - 1"
  using count_bits_bound[of b n] by auto

lemma pow2_le_ulong: "n \<le> 64 \<Longrightarrow> (2::nat) ^ n \<le> ulong_size"
  unfolding ulong_size_def by (rule power_increasing) simp_all

lemma ls_increment_eq:
  assumes "ls_has_next s" "ls_bits s < 2 ^ ls_n s" "ls_n s \<le> 64"
  shows "ls_increment s =
     Inr (s\<lparr>ls_bits := (if ls_bits s = 2 ^ ls_n s - 1 then ls_bits s else ls_bits s + 1),
            ls_has_next := (ls_bits s \<noteq> 2 ^ ls_n s - 1),
            ls_has_prev := ((if ls_bits s = 2 ^ ls_n s - 1 then ls_bits s else ls_bits s + 1) > ls_first s)\<rparr>)"
proof -
  have u: "(2::nat) ^ ls_n s \<le> ulong_size" using assms(3) by (rule pow2_le_ulong)
  have a: "ls_bits s < ulong_size" using assms(2) u by simp
  show ?thesis
  proof (cases "ls_bits s = 2 ^ ls_n s - 1")
    case True
    then show ?thesis
      using assms a by (simp add: ls_increment_def count_bits_less_iff to_ulong_def)
  next
    case False
    then have b: "ls_bits s + 1 < 2 ^ ls_n s" using assms(2) by simp
    then have c: "ls_bits s + 1 < ulong_size" using u by simp
    show ?thesis
      using assms a b c False
      by (simp add: ls_increment_def count_bits_less_iff to_ulong_def bitset_def Let_def)
  qed
qed

lemma map_nth_upt_filter: "map (\<lambda>pos. [0..<n] ! pos) (filter P [0..<n]) = filter P [0..<n]"
proof -
  have "map (\<lambda>pos. [0..<n] ! pos) (filter P [0..<n]) = map (\<lambda>pos. pos) (filter P [0..<n])"
    by (rule map_cong) auto
  then show ?thesis by simp
qed

lemma ls_apply_upt: "ls_n s = n \<Longrightarrow> ls_apply s [0..<n] = Inr (filter (bit (ls_bits s)) [0..<n])"
  by (simp add: ls_apply_def map_nth_upt_filter)

lemma bit_fold_set_bit:
  "bit (fold (\<lambda>p cid. set_bit p cid) ps (c::nat)) i \<longleftrightarrow> bit c i \<or> i \<in> set ps"
  by (induction ps arbitrary: c) (auto simp: bit_set_bit_iff)

lemma bit_make_coalition_id: "bit (make_coalition_id ps) i \<longleftrightarrow> i \<in> set ps"
  by (simp add: make_coalition_id_def bit_fold_set_bit)

lemma make_coalition_id_eq_iff: "make_coalition_id ps = make_coalition_id qs \<longleftrightarrow> set ps = set qs"
  by (auto simp: bit_eq_iff bit_make_coalition_id)

lemma bit_less_pow2: "(b::nat) < 2 ^ n \<Longrightarrow> bit b i \<Longrightarrow> i < n"
  by (metis bit_take_bit_iff take_bit_nat_eq_self)

lemma make_coalition_id_members: "b < 2 ^ n \<Longrightarrow> make_coalition_id (filter (bit b) [0..<n]) = b"
  by (rule bit_eqI) (auto simp: bit_make_coalition_id dest: bit_less_pow2)

lemma make_coalition_id_less: "set ps \<subseteq> {0..<n} \<Longrightarrow> make_coalition_id ps < 2 ^ n"
proof -
  assume a: "set ps \<subseteq> {0..<n}"
  have "take_bit n (make_coalition_id ps) = make_coalition_id ps"
    by (rule bit_eqI) (use a in \<open>auto simp: bit_take_bit_iff bit_make_coalition_id\<close>)
  then show ?thesis by (metis take_bit_nat_less_exp)
qed

lemma make_coalition_id_pos: "ps \<noteq> [] \<Longrightarrow> make_coalition_id ps > 0"
proof -
  assume "ps \<noteq> []"
  then obtain p where "p \<in> set ps" by (cases ps) auto
  then have "bit (make_coalition_id ps) p" by (simp add: bit_make_coalition_id)
  then show ?thesis by (cases "make_coalition_id ps = 0") auto
qed

lemma coalition_players_members: "set (coalition_players np cid) = {p. p < np \<and> bit cid p}"
  by (auto simp: coalition_players_def)

lemma upt_first: "b < m \<Longrightarrow> [b..<m] = b # [Suc b..<m]"
  by (simp add: upt_conv_Cons)

lemma next_subset_upt:
  assumes "ls_n s = n" "n \<le> 64" "ls_has_next s" "ls_bits s < 2 ^ n"
  shows "\<exists>s'. next_subset [0..<n] s = Inr (filter (bit (ls_bits s)) [0..<n], s') \<and>
            ls_n s' = n \<and>
            ls_bits s' = (if ls_bits s = 2 ^ n - 1 then ls_bits s else Suc (ls_bits s)) \<and>
            ls_has_next s' = (ls_bits s \<noteq> 2 ^ n - 1)"
proof -
  have "ls_increment s = Inr (s\<lparr>ls_bits := (if ls_bits s = 2 ^ ls_n s - 1 then ls_bits s else ls_bits s + 1),
            ls_has_next := (ls_bits s \<noteq> 2 ^ ls_n s - 1),
            ls_has_prev := ((if ls_bits s = 2 ^ ls_n s - 1 then ls_bits s else ls_bits s + 1) > ls_first s)\<rparr>)"
    using assms by (intro ls_increment_eq) simp_all
  then show ?thesis
    using assms(1) by (simp add: next_subset_def ls_apply_upt)
qed

lemma coalition_loop_eq:
  assumes "ex_fps ex = [0..<n]" "n \<le> 64"
  shows "ls_n s = n \<Longrightarrow> ls_has_next s \<Longrightarrow> ls_bits s < 2 ^ n \<Longrightarrow>
         coalition_loop ex col d vm s st =
           Some (Inr (visit_range ex col d vm n [ls_bits s..<2 ^ n] st))"
proof (induction "2 ^ n - ls_bits s" arbitrary: s st rule: less_induct)
  case less
  let ?b = "ls_bits s"
  let ?v = "visit_coalition ex col d vm (filter (bit ?b) [0..<n]) st"
  from next_subset_upt[OF less.prems(1) assms(2) less.prems(2,3)]
  obtain s' where s': "next_subset [0..<n] s = Inr (filter (bit ?b) [0..<n], s')"
    "ls_n s' = n" "ls_bits s' = (if ?b = 2 ^ n - 1 then ?b else Suc ?b)"
    "ls_has_next s' = (?b \<noteq> 2 ^ n - 1)" by blast
  have step: "coalition_loop ex col d vm s st = coalition_loop ex col d vm s' ?v"
    by (subst coalition_loop.simps) (simp add: less.prems assms(1) s'(1))
  have r: "[?b..<2 ^ n] = ?b # [Suc ?b..<2 ^ n]" using less.prems by (simp add: upt_first)
  show ?case
  proof (cases "?b = 2 ^ n - 1")
    case True
    then have e: "[Suc ?b..<2 ^ n] = []" using less.prems by simp
    have "coalition_loop ex col d vm s' ?v = Some (Inr ?v)"
      by (subst coalition_loop.simps) (simp add: s'(4) True)
    with step show ?thesis by (simp add: r e visit_range_def)
  next
    case False
    then have lt: "Suc ?b < 2 ^ n" using less.prems by simp
    have b': "ls_bits s' = Suc ?b" "ls_has_next s'" using False s' by simp_all
    have m: "2 ^ n - ls_bits s' < 2 ^ n - ?b" using b' lt by simp
    have "coalition_loop ex col d vm s' ?v =
           Some (Inr (visit_range ex col d vm n [ls_bits s'..<2 ^ n] ?v))"
      using less.hyps[OF m s'(2) b'(2)] b'(1) lt by simp
    with step show ?thesis by (simp add: r b' visit_range_def)
  qed
qed

lemma enumerate_coalitions_eq:
  assumes "0 < num_fps sc" "num_fps sc \<le> 64"
  shows "enumerate_coalitions (experiment_setup sc) col d vm g0 =
     Some (Inr (visit_range (experiment_setup sc) col d vm (num_fps sc) [1..<2 ^ num_fps sc]
        \<lparr>game = g0, visited_coalitions = Map.empty,
         fp_interval_alone_profits = replicate (num_fps sc) NaN\<rparr>))"
proof -
  let ?n = "num_fps sc"
  have one: "(1::nat) < 2 ^ ?n" using assms(1) by (intro one_less_power) simp_all
  have ex: "ex_fps (experiment_setup sc) = [0..<?n]" "ex_scen (experiment_setup sc) = sc"
    by (simp_all add: experiment_setup_def)
  let ?s = "\<lparr>ls_n = ?n, ls_empty_set = False, ls_bits = 1, ls_has_prev = False, ls_has_next = True\<rparr>"
  have mk: "ls_make ?n False = Inr ?s"
    using assms(1) one by (simp add: ls_make_def bitset_def)
  have "coalition_loop (experiment_setup sc) col d vm ?s st =
           Some (Inr (visit_range (experiment_setup sc) col d vm ?n [ls_bits ?s..<2 ^ ?n] st))" for st
    using one assms(2) by (intro coalition_loop_eq ex) simp_all
  then show ?thesis
    by (simp add: enumerate_coalitions_def ex mk)
qed

section \<open>Proofs: the two-provider scenario\<close>

lemma two_fp_scenario_eq: "two_fp_scenario =
   \<lparr>num_fps = 2, num_fn_categories = 1, num_svc_categories = 1, num_vm_categories = 1,
      svc_max_delays = [1], svc_vm_categories = [0], svc_vm_service_rates = [10], svc_workloads = [[(100,5)]],
      fp_num_svcs = [[1],[1]], fp_num_fns = [[1],[1]], fp_electricity_costs = [1/10,1/10], fp_coalition_costs = [0,0],
      fp_svc_revenues = [[1],[1]], fp_svc_penalties = [[1],[1]], fp_fn_asleep_costs = [[0],[0]], fp_fn_awake_costs = [[0],[0]],
      fn_min_powers = [1/10], fn_max_powers = [2/10], vm_cpu_requirements = [[1/2],[]], vm_ram_requirements = [[1/2],[]]\<rparr>"
  by (simp add: two_fp_scenario_def make_scenario_def fresh_scenario_def two_fp_lines_def read_matrix_def read_vector_def
      read_workloads_def resize_def post_parsing_checks_def rows_have_def upt_conv_Cons numeral_2_eq_2)

lemma two_fp_experiment: "experiment_setup two_fp_scenario =
   \<lparr>ex_scen = two_fp_scenario, ex_num_fns = 2, ex_num_svcs = 2, ex_fps = [0, 1], ex_fn_fps = [0, 1],
    ex_fn_categories = [0, 0], ex_svc_fps = [0, 1], ex_svc_categories = [0, 0]\<rparr>"
  unfolding experiment_setup_def per_category_def
  by (simp add: two_fp_scenario_eq upt_conv_Cons numeral_2_eq_2)

lemma two_fp_players:
  "coalition_players 2 (Suc 0) = [0]" "coalition_players 2 2 = [Suc 0]"
  "coalition_players 2 3 = [0, Suc 0]"
  by code_simp+

lemma two_fp_members:
  "coal_fns (experiment_setup two_fp_scenario) [0] = [0]"
  "coal_fns (experiment_setup two_fp_scenario) [Suc 0] = [Suc 0]"
  "coal_fns (experiment_setup two_fp_scenario) [0, Suc 0] = [0, Suc 0]"
  by (simp_all add: two_fp_experiment coal_fns_def upt_conv_Cons numeral_2_eq_2)

section \<open>Proofs: what a visit of the coalition loop writes\<close>

lemma visit_dom:
  "dom (visited_coalitions (visit_coalition ex col d vm ps st)) =
     insert (make_coalition_id ps) (dom (visited_coalitions st))"
  by (simp add: visit_coalition_def Let_def visited_update_def)

lemma visit_other:
  "cid \<noteq> make_coalition_id ps \<Longrightarrow>
     visited_coalitions (visit_coalition ex col d vm ps st) cid = visited_coalitions st cid \<and>
     game (visit_coalition ex col d vm ps st) cid = game st cid"
  by (simp add: visit_coalition_def Let_def visited_update_def)

lemma visit_unsolved:
  assumes "\<not> va_solved (solve col (coal_fns ex ps) (coal_vms ex vm ps))"
  shows "game (visit_coalition ex col d vm ps st) (make_coalition_id ps) = Fin (- real_min)"
    and "visited_coalitions (visit_coalition ex col d vm ps st) (make_coalition_id ps) =
          Some ((visited_ref (visited_coalitions st) (make_coalition_id ps))
                  \<lparr>ci_vm_allocation := solve col (coal_fns ex ps) (coal_vms ex vm ps),
                   ci_core_empty := True, ci_payoffs_in_core := False\<rparr>)"
  using assms by (simp_all add: visit_coalition_def Let_def visited_update_def visited_ref_def)

lemma visit_solved:
  assumes "va_solved (solve col (coal_fns ex ps) (coal_vms ex vm ps))"
  shows "game (visit_coalition ex col d vm ps st) (make_coalition_id ps) =
           coalition_profit ex d ps (va_objective_value (solve col (coal_fns ex ps) (coal_vms ex vm ps)))"
    and "\<exists>c. visited_coalitions (visit_coalition ex col d vm ps st) (make_coalition_id ps) = Some c \<and>
           ci_value c = coalition_profit ex d ps (va_objective_value (solve col (coal_fns ex ps) (coal_vms ex vm ps))) \<and>
           ci_vm_allocation c = solve col (coal_fns ex ps) (coal_vms ex vm ps)"
  using assms by (simp_all add: visit_coalition_def Let_def visited_update_def visited_ref_def)

lemma visit_range_dom:
  "\<forall>c \<in> set cs. c < 2 ^ n \<Longrightarrow>
     dom (visited_coalitions (visit_range ex col d vm n cs st)) = dom (visited_coalitions st) \<union> set cs"
proof (induction cs arbitrary: st)
  case Nil
  then show ?case by (simp add: visit_range_def)
next
  case (Cons c cs)
  have "visit_range ex col d vm n (c # cs) st =
        visit_range ex col d vm n cs (visit_coalition ex col d vm (filter (bit c) [0..<n]) st)"
    by (simp add: visit_range_def)
  with Cons show ?case by (simp add: visit_dom make_coalition_id_members)
qed

lemma visit_range_other:
  "\<forall>c \<in> set cs. c < 2 ^ n \<Longrightarrow> cid \<notin> set cs \<Longrightarrow>
     visited_coalitions (visit_range ex col d vm n cs st) cid = visited_coalitions st cid \<and>
     game (visit_range ex col d vm n cs st) cid = game st cid"
proof (induction cs arbitrary: st)
  case Nil
  then show ?case by (simp add: visit_range_def)
next
  case (Cons c cs)
  have e: "visit_range ex col d vm n (c # cs) st =
        visit_range ex col d vm n cs (visit_coalition ex col d vm (filter (bit c) [0..<n]) st)"
    by (simp add: visit_range_def)
  from Cons.prems have "cid \<noteq> make_coalition_id (filter (bit c) [0..<n])"
    by (simp add: make_coalition_id_members)
  with Cons show ?case unfolding e by (simp add: visit_other)
qed

text \<open>The record and the game value of a coalition are those its own visit leaves.\<close>

lemma visit_range_split:
  assumes "1 \<le> c" "c < 2 ^ n"
  shows "visited_coalitions (visit_range ex col d vm n [1..<2 ^ n] st) c =
           visited_coalitions (visit_coalition ex col d vm (filter (bit c) [0..<n])
              (visit_range ex col d vm n [1..<c] st)) c"
    and "game (visit_range ex col d vm n [1..<2 ^ n] st) c =
           game (visit_coalition ex col d vm (filter (bit c) [0..<n])
              (visit_range ex col d vm n [1..<c] st)) c"
    and "visited_coalitions (visit_range ex col d vm n [1..<c] st) c = visited_coalitions st c"
proof -
  have sp: "[1..<2 ^ n] = [1..<c] @ c # [Suc c..<2 ^ n]"
    using assms by (metis le_eq_less_or_eq less_imp_le_nat upt_add_eq_append upt_first le_add_diff_inverse)
  have e: "visit_range ex col d vm n [1..<2 ^ n] st =
       visit_range ex col d vm n [Suc c..<2 ^ n]
         (visit_coalition ex col d vm (filter (bit c) [0..<n]) (visit_range ex col d vm n [1..<c] st))"
    unfolding sp by (simp add: visit_range_def)
  have later: "\<forall>c' \<in> set [Suc c..<2 ^ n]. c' < 2 ^ n" "c \<notin> set [Suc c..<2 ^ n]" by simp_all
  have earlier: "\<forall>c' \<in> set [1..<c]. c' < 2 ^ n" "c \<notin> set [1..<c]" using assms by simp_all
  show "visited_coalitions (visit_range ex col d vm n [1..<2 ^ n] st) c =
           visited_coalitions (visit_coalition ex col d vm (filter (bit c) [0..<n])
              (visit_range ex col d vm n [1..<c] st)) c"
    unfolding e using visit_range_other[OF later] by blast
  show "game (visit_range ex col d vm n [1..<2 ^ n] st) c =
           game (visit_coalition ex col d vm (filter (bit c) [0..<n])
              (visit_range ex col d vm n [1..<c] st)) c"
    unfolding e using visit_range_other[OF later] by blast
  show "visited_coalitions (visit_range ex col d vm n [1..<c] st) c = visited_coalitions st c"
    using visit_range_other[OF earlier] by blast
qed

lemma visit_solved_payoffs:
  assumes "va_solved (solve col (coal_fns ex ps) (coal_vms ex vm ps))"
  shows "\<exists>c. visited_coalitions (visit_coalition ex col d vm ps st) (make_coalition_id ps) = Some c \<and>
           ci_payoffs c =
             shapley_value col
               ((game st)(make_coalition_id ps :=
                  coalition_profit ex d ps (va_objective_value (solve col (coal_fns ex ps) (coal_vms ex vm ps)))))
               ps"
  using assms by (simp add: visit_coalition_def Let_def visited_update_def visited_ref_def)

lemma solved_coalition_final:
  assumes "0 < num_fps sc" "num_fps sc \<le> 64" "1 \<le> cid" "cid < 2 ^ num_fps sc"
    and "va_solved (solve col (coal_fns (experiment_setup sc) (coalition_players (num_fps sc) cid))
                            (coal_vms (experiment_setup sc) vm (coalition_players (num_fps sc) cid)))"
  shows "\<exists>st c g'. enumerate_coalitions (experiment_setup sc) col d vm g0 = Some (Inr st) \<and>
           visited_coalitions st cid = Some c \<and>
           ci_payoffs c = shapley_value col g' (coalition_players (num_fps sc) cid) \<and>
           g' cid = coalition_profit (experiment_setup sc) d (coalition_players (num_fps sc) cid)
                     (va_objective_value (solve col (coal_fns (experiment_setup sc) (coalition_players (num_fps sc) cid))
                            (coal_vms (experiment_setup sc) vm (coalition_players (num_fps sc) cid))))"
proof -
  let ?n = "num_fps sc"
  let ?ex = "experiment_setup sc"
  let ?init = "\<lparr>game = g0, visited_coalitions = Map.empty, fp_interval_alone_profits = replicate ?n NaN\<rparr>"
  let ?st = "visit_range ?ex col d vm ?n [1..<2 ^ ?n] ?init"
  let ?before = "visit_range ?ex col d vm ?n [1..<cid] ?init"
  let ?ps = "coalition_players ?n cid"
  have r: "enumerate_coalitions ?ex col d vm g0 = Some (Inr ?st)"
    using assms(1,2) by (rule enumerate_coalitions_eq)
  have ps: "?ps = filter (bit cid) [0..<?n]" by (simp add: coalition_players_def)
  have id: "make_coalition_id ?ps = cid" unfolding ps using assms(4) by (rule make_coalition_id_members)
  note sp = visit_range_split[OF assms(3,4), where ex = ?ex and col = col and d = d and vm = vm and st = ?init]
  from visit_solved_payoffs[OF assms(5), where d = d and st = ?before]
  obtain c where "visited_coalitions (visit_coalition ?ex col d vm ?ps ?before) cid = Some c"
    "ci_payoffs c = shapley_value col ((game ?before)(cid :=
         coalition_profit ?ex d ?ps (va_objective_value (solve col (coal_fns ?ex ?ps) (coal_vms ?ex vm ?ps))))) ?ps"
    unfolding id by blast
  with sp(1) r show ?thesis unfolding ps by (intro exI conjI) (assumption | simp)+
qed

lemma unsolved_coalition_final:
  assumes "0 < num_fps sc" "num_fps sc \<le> 64" "1 \<le> cid" "cid < 2 ^ num_fps sc"
    and "\<not> va_solved (solve col (coal_fns (experiment_setup sc) (coalition_players (num_fps sc) cid))
                            (coal_vms (experiment_setup sc) vm (coalition_players (num_fps sc) cid)))"
  shows "\<exists>st. enumerate_coalitions (experiment_setup sc) col d vm g0 = Some (Inr st) \<and>
           game st cid = Fin (- real_min) \<and>
           visited_coalitions st cid =
             Some (default_coalition_info
                    \<lparr>ci_vm_allocation := solve col (coal_fns (experiment_setup sc) (coalition_players (num_fps sc) cid))
                            (coal_vms (experiment_setup sc) vm (coalition_players (num_fps sc) cid)),
                     ci_core_empty := True, ci_payoffs_in_core := False\<rparr>)"
proof -
  let ?n = "num_fps sc"
  let ?ex = "experiment_setup sc"
  let ?init = "\<lparr>game = g0, visited_coalitions = Map.empty, fp_interval_alone_profits = replicate ?n NaN\<rparr>"
  let ?st = "visit_range ?ex col d vm ?n [1..<2 ^ ?n] ?init"
  let ?before = "visit_range ?ex col d vm ?n [1..<cid] ?init"
  let ?ps = "coalition_players ?n cid"
  have r: "enumerate_coalitions ?ex col d vm g0 = Some (Inr ?st)"
    using assms(1,2) by (rule enumerate_coalitions_eq)
  have ps: "?ps = filter (bit cid) [0..<?n]" by (simp add: coalition_players_def)
  have id: "make_coalition_id ?ps = cid" unfolding ps using assms(4) by (rule make_coalition_id_members)
  note sp = visit_range_split[OF assms(3,4), where ex = ?ex and col = col and d = d and vm = vm and st = ?init]
  have fresh: "visited_ref (visited_coalitions ?before) cid = default_coalition_info"
    using sp(3) by (simp add: visited_ref_def)
  from visit_unsolved[OF assms(5), where d = d and st = ?before]
  have "game (visit_coalition ?ex col d vm ?ps ?before) cid = Fin (- real_min)"
    "visited_coalitions (visit_coalition ?ex col d vm ?ps ?before) cid =
       Some (default_coalition_info\<lparr>ci_vm_allocation := solve col (coal_fns ?ex ?ps) (coal_vms ?ex vm ?ps),
                   ci_core_empty := True, ci_payoffs_in_core := False\<rparr>)"
    unfolding id fresh by simp_all
  with sp(1,2) r show ?thesis unfolding ps by simp
qed

section \<open>Proofs: every non-empty coalition is visited\<close>

lemma nonempty_coalition_ids:
  "make_coalition_id ` {ps. ps \<noteq> [] \<and> set ps \<subseteq> {0..<n}} = {1..<2 ^ n}"
proof (rule set_eqI, rule iffI)
  fix c assume "c \<in> make_coalition_id ` {ps. ps \<noteq> [] \<and> set ps \<subseteq> {0..<n}}"
  then obtain ps where "ps \<noteq> []" "set ps \<subseteq> {0..<n}" "c = make_coalition_id ps" by blast
  then show "c \<in> {1..<2 ^ n}"
    using make_coalition_id_pos[of ps] make_coalition_id_less[of ps n] by simp
next
  fix c :: nat assume c: "c \<in> {1..<2 ^ n}"
  let ?ps = "filter (bit c) [0..<n]"
  have e: "make_coalition_id ?ps = c" using c by (simp add: make_coalition_id_members)
  have "?ps \<noteq> []"
  proof
    assume "?ps = []"
    then have "make_coalition_id ?ps = 0" by (simp add: make_coalition_id_def)
    with e c show False by simp
  qed
  moreover have "set ?ps \<subseteq> {0..<n}" by auto
  ultimately show "c \<in> make_coalition_id ` {ps. ps \<noteq> [] \<and> set ps \<subseteq> {0..<n}}"
    using e by (metis (mono_tags, lifting) image_eqI mem_Collect_eq)
qed

text \<open>
  Claim C10: after the coalition loop of a trigger over \<open>n\<close> providers (\<open>0 < n \<le> 64\<close>, the
  width of the \<open>unsigned long\<close> the subset iterator counts in), the loop has returned and
  \<open>visited_coalitions\<close> holds exactly \<open>2^n - 1\<close> entries, one for the identifier of each
  non-empty set of providers; so \<open>visited_coalitions.at(cid)\<close> succeeds for the identifier of
  every non-empty set of players.
\<close>

theorem visited_coalitions_complete:
  assumes "0 < num_fps sc" "num_fps sc \<le> 64"
  shows "\<exists>st. enumerate_coalitions (experiment_setup sc) col d vm g0 = Some (Inr st) \<and>
     dom (visited_coalitions st) = make_coalition_id ` {ps. ps \<noteq> [] \<and> set ps \<subseteq> {0..<num_fps sc}} \<and>
     card (dom (visited_coalitions st)) = 2 ^ num_fps sc - 1 \<and>
     (\<forall>ps. ps \<noteq> [] \<and> set ps \<subseteq> {0..<num_fps sc} \<longrightarrow>
           (\<exists>c. map_at (visited_coalitions st) (make_coalition_id ps) = Inr c))"
proof -
  let ?n = "num_fps sc"
  let ?st = "visit_range (experiment_setup sc) col d vm ?n [1..<2 ^ ?n]
        \<lparr>game = g0, visited_coalitions = Map.empty, fp_interval_alone_profits = replicate ?n NaN\<rparr>"
  have r: "enumerate_coalitions (experiment_setup sc) col d vm g0 = Some (Inr ?st)"
    using assms by (rule enumerate_coalitions_eq)
  have "\<forall>c \<in> set [1..<2 ^ ?n]. c < 2 ^ ?n" by simp
  from visit_range_dom[OF this]
  have d: "dom (visited_coalitions ?st) = {1..<2 ^ ?n}" by simp
  have i: "dom (visited_coalitions ?st) = make_coalition_id ` {ps. ps \<noteq> [] \<and> set ps \<subseteq> {0..<?n}}"
    unfolding d nonempty_coalition_ids ..
  have c: "card (dom (visited_coalitions ?st)) = 2 ^ ?n - 1" unfolding d by simp
  have a: "\<exists>c. map_at (visited_coalitions ?st) (make_coalition_id ps) = Inr c"
    if "ps \<noteq> [] \<and> set ps \<subseteq> {0..<?n}" for ps
  proof -
    from that have "make_coalition_id ps \<in> dom (visited_coalitions ?st)" unfolding i by blast
    then show ?thesis by (auto simp: map_at_def)
  qed
  from r i c a show ?thesis by blast
qed

theorem visited_coalitions_complete_witness:
  "\<exists>st. enumerate_coalitions (experiment_setup two_fp_scenario) infeasible_grand 100 [0, 1] (\<lambda>cid. NaN) = Some (Inr st) \<and>
     dom (visited_coalitions st) = make_coalition_id ` {ps. ps \<noteq> [] \<and> set ps \<subseteq> {0..<2}} \<and>
     card (dom (visited_coalitions st)) = 3 \<and>
     (\<forall>ps. ps \<noteq> [] \<and> set ps \<subseteq> {0..<2} \<longrightarrow>
           (\<exists>c. map_at (visited_coalitions st) (make_coalition_id ps) = Inr c))"
proof -
  have n: "num_fps two_fp_scenario = 2" by (simp add: two_fp_scenario_eq)
  have "0 < num_fps two_fp_scenario" "num_fps two_fp_scenario \<le> 64" by (simp_all add: n)
  from visited_coalitions_complete[OF this, of infeasible_grand 100 "[0, 1]" "\<lambda>cid. NaN"]
  show ?thesis by (simp add: n)
qed

section \<open>Proofs: the value of a solved coalition\<close>

lemma sorted_constant: "\<forall>x \<in> set xs. x = (c::nat) \<Longrightarrow> sorted xs"
  by (induction xs) auto

lemma sorted_filter_upt: "sorted (filter P [a..<b])"
  by (rule sorted_wrt_filter) simp

lemma sorted_concat_blocks:
  "(\<And>i. i < n \<Longrightarrow> \<forall>x \<in> set (f i). x = i) \<Longrightarrow> sorted (concat (map f [0..<n]))"
proof (induction n)
  case 0
  then show ?case by simp
next
  case (Suc n)
  have left: "sorted (concat (map f [0..<n]))" using Suc by simp
  have last: "\<forall>x \<in> set (f n). x = n" using Suc.prems[of n] by simp
  then have "sorted (f n)" by (rule sorted_constant)
  moreover have "\<forall>x \<in> set (concat (map f [0..<n])). \<forall>y \<in> set (f n). x \<le> y"
  proof (intro ballI)
    fix x y assume x: "x \<in> set (concat (map f [0..<n]))" and y: "y \<in> set (f n)"
    from x obtain i where "i < n" "x \<in> set (f i)" by auto
    then have "x = i" using Suc.prems[of i] by simp
    moreover have "y = n" using last y by auto
    ultimately show "x \<le> y" using \<open>i < n\<close> by simp
  qed
  ultimately show ?case using left by (simp add: sorted_append)
qed

lemma per_category_sorted: "sorted (per_category counts nfp ncat (\<lambda>fp c. fp))"
proof -
  have "\<forall>x \<in> set (concat (map (\<lambda>c. replicate (counts ! i ! c) i) [0..<ncat])). x = i" for i
    by auto
  then show ?thesis
    unfolding per_category_def
    by (intro sorted_concat_blocks[where f = "\<lambda>fp. concat (map (\<lambda>c. replicate (counts ! fp ! c) fp) [0..<ncat])"])
qed

lemma owned_in_index_order:
  assumes "sorted ps" "distinct ps" "sorted xs"
  shows "concat (map (\<lambda>p. filter (\<lambda>s. xs ! s = p) [0..<length xs]) ps) =
         filter (\<lambda>s. xs ! s \<in> set ps) [0..<length xs]"
proof (rule sorted_distinct_set_unique)
  let ?f = "\<lambda>p. filter (\<lambda>s. xs ! s = p) [0..<length xs]"
  have both: "sorted (concat (map ?f ps)) \<and> distinct (concat (map ?f ps))"
    using assms(1,2)
  proof (induction ps)
    case Nil
    then show ?case by simp
  next
    case (Cons p ps)
    have IH: "sorted (concat (map ?f ps))" "distinct (concat (map ?f ps))"
      using Cons by simp_all
    have lt: "\<forall>q \<in> set ps. p < q" using Cons.prems by (auto simp: order_less_le)
    have order: "x < y" if "x \<in> set (?f p)" "y \<in> set (concat (map ?f ps))" for x y
    proof -
      from that(1) have x: "x < length xs" "xs ! x = p" by simp_all
      from that(2) obtain q where q: "q \<in> set ps" "y < length xs" "xs ! y = q" by auto
      show "x < y"
      proof (rule ccontr)
        assume "\<not> x < y"
        then have "y \<le> x" by simp
        then have "xs ! y \<le> xs ! x" using assms(3) x(1) by (simp add: sorted_nth_mono)
        with x q lt show False by auto
      qed
    qed
    have le: "\<forall>x \<in> set (?f p). \<forall>y \<in> set (concat (map ?f ps)). x \<le> y"
      using order by (intro ballI less_imp_le)
    have disj: "set (?f p) \<inter> set (concat (map ?f ps)) = {}"
    proof (rule ccontr)
      assume "set (?f p) \<inter> set (concat (map ?f ps)) \<noteq> {}"
      then obtain x where "x \<in> set (?f p)" "x \<in> set (concat (map ?f ps))" by blast
      from order[OF this] show False by simp
    qed
    have sf: "sorted (?f p)" "distinct (?f p)" by (simp_all add: sorted_filter_upt)
    have "sorted (?f p @ concat (map ?f ps))"
      unfolding sorted_append using sf(1) IH(1) le by (intro conjI)
    moreover have "distinct (?f p @ concat (map ?f ps))"
      unfolding distinct_append using sf(2) IH(2) disj by (intro conjI)
    moreover have "concat (map ?f (p # ps)) = ?f p @ concat (map ?f ps)" by simp
    ultimately show ?case by (simp only:)
  qed
  from both show "sorted (concat (map ?f ps))" ..
  from both show "distinct (concat (map ?f ps))" ..
  show "sorted (filter (\<lambda>s. xs ! s \<in> set ps) [0..<length xs])" by (rule sorted_filter_upt)
  show "distinct (filter (\<lambda>s. xs ! s \<in> set ps) [0..<length xs])" by simp
  show "set (concat (map ?f ps)) = set (filter (\<lambda>s. xs ! s \<in> set ps) [0..<length xs])" by auto
qed

lemma coal_svcs_index_order:
  assumes "sorted ps" "distinct ps"
  shows "coal_svcs (experiment_setup sc) ps =
         filter (\<lambda>s. ex_svc_fps (experiment_setup sc) ! s \<in> set ps) [0..<ex_num_svcs (experiment_setup sc)]"
proof -
  have n: "ex_num_svcs (experiment_setup sc) = length (ex_svc_fps (experiment_setup sc))"
    by (simp add: experiment_setup_def)
  have s: "sorted (ex_svc_fps (experiment_setup sc))"
    by (simp add: experiment_setup_def per_category_sorted)
  show ?thesis unfolding coal_svcs_def n by (rule owned_in_index_order[OF assms s])
qed

text \<open>
  Claim C4: for every coalition whose optimizer call returns \<open>solved = true\<close>, the loop
  returns and the value stored for the coalition, in the game and in \<open>visited_coalitions\<close>,
  is \<open>(revenue - cost) * coalition_duration\<close> in double arithmetic: \<open>revenue\<close> is the sum of
  the service revenues over the services of the coalition's providers, accumulated from 0
  in ascending service index; \<open>cost\<close> is the optimizer objective minus the coalition costs of
  the providers, subtracted one by one in ascending provider index, when there are at least
  two of them, and the objective itself for one provider.  Every operation rounds as the
  program's does.
\<close>

theorem coalition_value_formula:
  assumes "0 < num_fps sc" "num_fps sc \<le> 64"
    and "1 \<le> cid" "cid < 2 ^ num_fps sc"
    and "ex = experiment_setup sc"
    and "coal_fps = coalition_players (num_fps sc) cid"
    and "vm_alloc = solve col (coal_fns ex coal_fps) (coal_vms ex vm_svcs coal_fps)"
    and "va_solved vm_alloc"
    and "revenue = fold (\<lambda>s r. fadd r (Fin (fp_svc_revenues sc ! (ex_svc_fps ex ! s) ! (ex_svc_categories ex ! s))))
                        (filter (\<lambda>s. ex_svc_fps ex ! s \<in> set coal_fps) [0..<ex_num_svcs ex]) (Fin 0)"
    and "cost = (if length coal_fps > 1
                 then fold (\<lambda>p c. fsub c (Fin (fp_coalition_costs sc ! p))) coal_fps (va_objective_value vm_alloc)
                 else va_objective_value vm_alloc)"
  shows "\<exists>st c. enumerate_coalitions ex col coalition_duration vm_svcs game0 = Some (Inr st) \<and>
           game st cid = fmul (fsub revenue cost) (Fin coalition_duration) \<and>
           visited_coalitions st cid = Some c \<and>
           ci_value c = fmul (fsub revenue cost) (Fin coalition_duration)"
proof -
  let ?n = "num_fps sc"
  let ?init = "\<lparr>game = game0, visited_coalitions = Map.empty, fp_interval_alone_profits = replicate ?n NaN\<rparr>"
  let ?st = "visit_range ex col coalition_duration vm_svcs ?n [1..<2 ^ ?n] ?init"
  let ?before = "visit_range ex col coalition_duration vm_svcs ?n [1..<cid] ?init"
  have r: "enumerate_coalitions ex col coalition_duration vm_svcs game0 = Some (Inr ?st)"
    unfolding assms(5) using assms(1,2) by (rule enumerate_coalitions_eq)
  have ps: "coal_fps = filter (bit cid) [0..<?n]" by (simp add: assms(6) coalition_players_def)
  have id: "make_coalition_id coal_fps = cid" unfolding ps using assms(4) by (rule make_coalition_id_members)
  have dist: "distinct coal_fps" "sorted coal_fps"
    unfolding ps by (simp_all add: sorted_filter_upt)
  have sc: "ex_scen ex = sc" by (simp add: assms(5) experiment_setup_def)
  have solved: "va_solved (solve col (coal_fns ex coal_fps) (coal_vms ex vm_svcs coal_fps))"
    using assms(7,8) by simp
  have svcs: "coal_svcs ex coal_fps = filter (\<lambda>s. ex_svc_fps ex ! s \<in> set coal_fps) [0..<ex_num_svcs ex]"
    unfolding assms(5) using dist(2,1) by (rule coal_svcs_index_order)
  have profit: "coalition_profit ex coalition_duration coal_fps
        (va_objective_value (solve col (coal_fns ex coal_fps) (coal_vms ex vm_svcs coal_fps)))
      = fmul (fsub revenue cost) (Fin coalition_duration)"
    unfolding coalition_profit_def coalition_revenue_def coalition_cost_def svcs sc assms(9,10) assms(7) ..
  from visit_solved[OF solved, where d = coalition_duration and st = ?before]
  obtain c where c: "game (visit_coalition ex col coalition_duration vm_svcs coal_fps ?before) cid
        = fmul (fsub revenue cost) (Fin coalition_duration)"
     "visited_coalitions (visit_coalition ex col coalition_duration vm_svcs coal_fps ?before) cid = Some c"
     "ci_value c = fmul (fsub revenue cost) (Fin coalition_duration)"
    unfolding id profit by blast
  from visit_range_split(1,2)[OF assms(3,4), where ex = ex and col = col and d = coalition_duration
      and vm = vm_svcs and st = ?init] c
  have "game ?st cid = fmul (fsub revenue cost) (Fin coalition_duration)"
       "visited_coalitions ?st cid = Some c"
    unfolding ps by simp_all
  with r c(3) show ?thesis by blast
qed

lemma pair_scenario_fields:
  "num_fps pair_scenario = 2"
  "fp_coalition_costs pair_scenario = [1 / 4, 1 / 2]"
  "fp_svc_revenues pair_scenario = [[3602879701896397 / 2 ^ 55], [3602879701896397 / 2 ^ 55]]"
  by (simp_all add: pair_scenario_def two_fp_scenario_eq)

lemma pair_experiment:
  "ex_num_svcs (experiment_setup pair_scenario) = 3"
  "ex_svc_fps (experiment_setup pair_scenario) = [0, 0, Suc 0]"
  "ex_svc_categories (experiment_setup pair_scenario) = [0, 0, 0]"
  unfolding experiment_setup_def per_category_def
  by (simp_all add: pair_scenario_def two_fp_scenario_eq upt_conv_Cons numeral_2_eq_2)

lemma pair_revenue:
  "fold (\<lambda>s r. fadd r (Fin (fp_svc_revenues pair_scenario ! (ex_svc_fps (experiment_setup pair_scenario) ! s)
                                ! (ex_svc_categories (experiment_setup pair_scenario) ! s))))
        (filter (\<lambda>s. ex_svc_fps (experiment_setup pair_scenario) ! s \<in> set [0, Suc 0])
                [0..<ex_num_svcs (experiment_setup pair_scenario)]) (Fin 0)
   = Fin (5404319552844596 / 2 ^ 54)"
proof -
  have "filter (\<lambda>s. ex_svc_fps (experiment_setup pair_scenario) ! s \<in> set [0, Suc 0])
                [0..<ex_num_svcs (experiment_setup pair_scenario)] = [0, Suc 0, 2]"
    by (simp add: pair_experiment upt_conv_Cons numeral_3_eq_3)
  then show ?thesis
    using tenth_thrice by (simp add: pair_experiment pair_scenario_fields)
qed

lemma pair_cost:
  "fold (\<lambda>p c. fsub c (Fin (fp_coalition_costs pair_scenario ! p))) [0, Suc 0] (Fin (1 / 8)) = Fin (- (5 / 8))"
  by (simp add: pair_scenario_fields fsub_def float_eval)

lemma pair_value:
  "fmul (fsub (Fin (5404319552844596 / 2 ^ 54)) (Fin (- (5 / 8)))) (Fin 100) = Fin (185 / 2)"
  by (simp add: fsub_def float_eval)

theorem coalition_value_formula_witness:
  "\<exists>st c. enumerate_coalitions (experiment_setup pair_scenario) always_solved 100 [0, 1, 2] (\<lambda>cid. NaN)
             = Some (Inr st) \<and>
          game st 3 = Fin (185 / 2) \<and> visited_coalitions st 3 = Some c \<and> ci_value c = Fin (185 / 2)"
proof -
  let ?ex = "experiment_setup pair_scenario"
  let ?va = "\<lparr>va_solved = True, va_optimal = True, va_objective_value = Fin (1 / 8),
              va_fn_vm_allocations = [], va_fn_power_states = []\<rparr>"
  have n: "num_fps pair_scenario = 2" by (rule pair_scenario_fields)
  have h: "0 < num_fps pair_scenario" "num_fps pair_scenario \<le> 64"
    "(1::nat) \<le> 3" "(3::nat) < 2 ^ num_fps pair_scenario" by (simp_all add: n)
  have ps: "[0, Suc 0] = coalition_players (num_fps pair_scenario) 3"
    by (simp add: n two_fp_players)
  have va: "?va = solve always_solved (coal_fns ?ex [0, Suc 0]) (coal_vms ?ex [0, 1, 2] [0, Suc 0])"
    by (simp add: always_solved_def)
  have s: "va_solved ?va" by simp
  have rev: "Fin (5404319552844596 / 2 ^ 54) =
       fold (\<lambda>s r. fadd r (Fin (fp_svc_revenues pair_scenario ! (ex_svc_fps ?ex ! s) ! (ex_svc_categories ?ex ! s))))
            (filter (\<lambda>s. ex_svc_fps ?ex ! s \<in> set [0, Suc 0]) [0..<ex_num_svcs ?ex]) (Fin 0)"
    by (rule pair_revenue[symmetric])
  have cost: "Fin (- (5 / 8)) =
       (if length [0, Suc 0] > 1
        then fold (\<lambda>p c. fsub c (Fin (fp_coalition_costs pair_scenario ! p))) [0, Suc 0] (va_objective_value ?va)
        else va_objective_value ?va)"
    using pair_cost by simp
  from coalition_value_formula[OF h refl ps va s rev cost, of 100 "\<lambda>cid. NaN"]
  show ?thesis unfolding pair_value .
qed

section \<open>Proofs: the record of an unsolved coalition\<close>

text \<open>
  Claim C1 at the trigger whose grand coalition is infeasible: the loop returns; for the
  unsolved coalition \<open>{0, 1}\<close> (identifier 3) the game holds \<open>-numeric_limits::min()\<close>, a
  finite number just below zero, and the record of \<open>visited_coalitions\<close> keeps the NaN of
  its constructor; neither is the negative infinity the claim names.  The payoff map is
  empty, as claimed.
\<close>

theorem unsolved_coalition_sentinel:
  "\<exists>st c. enumerate_coalitions (experiment_setup two_fp_scenario) infeasible_grand 100 [0, 1] (\<lambda>cid. NaN)
             = Some (Inr st) \<and>
          game st 3 = Fin (- real_min) \<and> game st 3 \<noteq> NInf \<and>
          visited_coalitions st 3 = Some c \<and> \<not> va_solved (ci_vm_allocation c) \<and>
          ci_value c = NaN \<and> ci_value c \<noteq> NInf \<and> ci_payoffs c = Map.empty"
proof -
  let ?ex = "experiment_setup two_fp_scenario"
  have n: "num_fps two_fp_scenario = 2" by (simp add: two_fp_scenario_eq)
  have h: "0 < num_fps two_fp_scenario" "num_fps two_fp_scenario \<le> 64"
    "(1::nat) \<le> 3" "(3::nat) < 2 ^ num_fps two_fp_scenario" by (simp_all add: n)
  have u: "solve infeasible_grand (coal_fns ?ex (coalition_players (num_fps two_fp_scenario) 3))
              (coal_vms ?ex [0, 1] (coalition_players (num_fps two_fp_scenario) 3)) = default_vm_allocation"
    by (simp add: n two_fp_players two_fp_members infeasible_grand_def)
  then have "\<not> va_solved (solve infeasible_grand (coal_fns ?ex (coalition_players (num_fps two_fp_scenario) 3))
              (coal_vms ?ex [0, 1] (coalition_players (num_fps two_fp_scenario) 3)))"
    by (simp add: default_vm_allocation_def)
  from unsolved_coalition_final[OF h this, of 100 "\<lambda>cid. NaN"]
  show ?thesis unfolding u by (auto simp: default_coalition_info_def default_vm_allocation_def)
qed

section \<open>Proofs: Nash stability of the selected partitions\<close>

lemma deviation_not_preferred:
  "deviation_preferred vis cid1 cid2 pid = Inr False \<Longrightarrow>
     \<exists>a b. payoff_of vis cid2 pid = Some a \<and> payoff_of vis cid1 pid = Some b \<and>
           \<not> definitely_greater a b"
  by (auto simp: deviation_preferred_def map_at_def payoff_of_def
           split: option.splits sum.splits if_splits)

lemma check_alternatives_stable:
  "check_alternatives np vis cid1 pid part = Inr True \<Longrightarrow> cid2 \<in> set part \<Longrightarrow> cid2 \<noteq> cid1 \<Longrightarrow>
     deviation_preferred vis cid1 (make_coalition_id (coalition_players np cid2 @ [pid])) pid = Inr False"
  by (induction part) (auto split: if_splits sum.splits)

lemma check_player_stable:
  assumes "check_player np vis part cid1 pid = Inr True"
  shows "\<forall>cid2 \<in> set part. cid2 \<noteq> cid1 \<longrightarrow>
           deviation_preferred vis cid1 (make_coalition_id (coalition_players np cid2 @ [pid])) pid = Inr False"
    and "deviation_preferred vis cid1 (make_coalition_id [pid]) pid = Inr False"
proof -
  from assms have a: "check_alternatives np vis cid1 pid part = Inr True"
    and b: "deviation_preferred vis cid1 (make_coalition_id [pid]) pid = Inr False"
    by (auto simp: check_player_def split: sum.splits if_splits)
  from a show "\<forall>cid2 \<in> set part. cid2 \<noteq> cid1 \<longrightarrow>
           deviation_preferred vis cid1 (make_coalition_id (coalition_players np cid2 @ [pid])) pid = Inr False"
    by (blast intro: check_alternatives_stable)
  from b show "deviation_preferred vis cid1 (make_coalition_id [pid]) pid = Inr False" .
qed

lemma check_players_stable:
  "check_players np vis part cid1 pids = Inr True \<Longrightarrow> pid \<in> set pids \<Longrightarrow>
     check_player np vis part cid1 pid = Inr True"
  by (induction pids) (auto split: sum.splits if_splits)

lemma check_coalitions_stable:
  "check_coalitions np vis part cids = Inr True \<Longrightarrow> cid1 \<in> set cids \<Longrightarrow>
     check_players np vis part cid1 (coalition_players np cid1) = Inr True"
  by (induction cids) (auto split: sum.splits if_splits)

lemma check_nash_stability_sound:
  assumes "check_nash_stability np vis cids = Inr True"
  shows "no_profitable_deviation np vis cids"
  unfolding no_profitable_deviation_def
proof (intro ballI)
  fix cid1 pid assume c: "cid1 \<in> set cids" and p: "pid \<in> set (coalition_players np cid1)"
  let ?part = "sort (remdups cids)"
  from assms have "check_coalitions np vis ?part cids = Inr True" by (simp add: check_nash_stability_def)
  from check_players_stable[OF check_coalitions_stable[OF this c] p]
  have pl: "check_player np vis ?part cid1 pid = Inr True" .
  note st = check_player_stable[OF pl]
  from deviation_not_preferred[OF st(2)] obtain a b where
    ab: "payoff_of vis (make_coalition_id [pid]) pid = Some a" "payoff_of vis cid1 pid = Some b"
      "\<not> definitely_greater a b" by blast
  have "\<exists>a. payoff_of vis (make_coalition_id (coalition_players np cid2 @ [pid])) pid = Some a \<and>
                  \<not> definitely_greater a b" if "cid2 \<in> set cids" "cid2 \<noteq> cid1" for cid2
  proof -
    from that st(1) have "deviation_preferred vis cid1
        (make_coalition_id (coalition_players np cid2 @ [pid])) pid = Inr False" by simp
    from deviation_not_preferred[OF this] ab(2) show ?thesis by auto
  qed
  with ab show "\<exists>b. payoff_of vis cid1 pid = Some b \<and>
          (\<forall>cid2 \<in> set cids. cid2 \<noteq> cid1 \<longrightarrow>
             (\<exists>a. payoff_of vis (make_coalition_id (coalition_players np cid2 @ [pid])) pid = Some a \<and>
                  \<not> definitely_greater a b)) \<and>
          (\<exists>a. payoff_of vis (make_coalition_id [pid]) pid = Some a \<and> \<not> definitely_greater a b)"
    by blast
qed

lemma nash_loop_sound_aux:
  assumes "nash_loop np g vis p best0 = Some res"
  shows "\<forall>best. res = Inr best \<longrightarrow>
        (\<forall>P \<in> set best. P \<in> set best0 \<or> no_profitable_deviation np vis (pi_coalitions P))"
proof (rule nash_loop.raw_induct
    [where P = "\<lambda>np g vis p best0 res. \<forall>best. res = Inr best \<longrightarrow>
        (\<forall>P \<in> set best. P \<in> set best0 \<or> no_profitable_deviation np vis (pi_coalitions P))",
     OF _ assms])
  fix nash_loop' :: "nat \<Rightarrow> (nat \<Rightarrow> fval) \<Rightarrow> (nat \<rightharpoonup> coalition_info) \<Rightarrow> lexicographic_partition
     \<Rightarrow> partition_info list \<Rightarrow> (error + partition_info list) option"
    and np g vis p best0 res
  assume IH: "\<And>np g vis p best0 res. nash_loop' np g vis p best0 = Some res \<Longrightarrow>
        \<forall>best. res = Inr best \<longrightarrow>
        (\<forall>P \<in> set best. P \<in> set best0 \<or> no_profitable_deviation np vis (pi_coalitions P))"
  assume eq: "(if \<not> lp_has_next p then Some (Inr best0)
      else (case lp_next_partition [0..<np] p of
              Inl e \<Rightarrow> Some (Inl e)
            | Inr r \<Rightarrow>
                (case check_nash_stability np vis
                        (pi_coalitions (candidate_partition g vis (fst r))) of
                   Inl e \<Rightarrow> Some (Inl e)
                 | Inr nash_stable \<Rightarrow>
                     nash_loop' np g vis (snd r)
                       (if nash_stable
                        then best0 @ [candidate_partition g vis (fst r)]
                        else best0)))) = Some res"
  show "\<forall>best. res = Inr best \<longrightarrow>
        (\<forall>P \<in> set best. P \<in> set best0 \<or> no_profitable_deviation np vis (pi_coalitions P))"
  proof (intro allI impI)
    fix best assume res: "res = Inr best"
    show "\<forall>P \<in> set best. P \<in> set best0 \<or> no_profitable_deviation np vis (pi_coalitions P)"
    proof (cases "lp_has_next p")
      case False
      with eq res show ?thesis by simp
    next
      case True
      with eq res obtain r stable where r: "lp_next_partition [0..<np] p = Inr r"
        and s: "check_nash_stability np vis (pi_coalitions (candidate_partition g vis (fst r))) = Inr stable"
        and rec: "nash_loop' np g vis (snd r)
                    (if stable then best0 @ [candidate_partition g vis (fst r)] else best0) = Some (Inr best)"
        by (auto split: sum.splits)
      from IH[OF rec] have *: "\<forall>P \<in> set best.
          P \<in> set (if stable then best0 @ [candidate_partition g vis (fst r)] else best0) \<or>
          no_profitable_deviation np vis (pi_coalitions P)" by simp
      show ?thesis
      proof (cases stable)
        case True
        with s have "no_profitable_deviation np vis (pi_coalitions (candidate_partition g vis (fst r)))"
          by (simp add: check_nash_stability_sound)
        with * True show ?thesis by auto
      next
        case False
        with * show ?thesis by simp
      qed
    qed
  qed
qed


lemma nash_loop_sound:
  "nash_loop np g vis p best0 = Some (Inr best) \<Longrightarrow> P \<in> set best \<Longrightarrow>
     P \<in> set best0 \<or> no_profitable_deviation np vis (pi_coalitions P)"
  using nash_loop_sound_aux by blast

section \<open>Proofs: no profitable deviation\<close>

lemma lp2_steps:
  "lp_make 2 True = Inr \<lparr>lp_n = 2, lp_kappa = [0, 0], lp_M = [0, 0], lp_has_prev = False, lp_has_next = True\<rparr>"
  "lp_next_partition [0..<2] \<lparr>lp_n = 2, lp_kappa = [0, 0], lp_M = [0, 0], lp_has_prev = False, lp_has_next = True\<rparr>
     = Inr ([[0, Suc 0]], \<lparr>lp_n = 2, lp_kappa = [0, Suc 0], lp_M = [0, Suc 0], lp_has_prev = True, lp_has_next = True\<rparr>)"
  "lp_next_partition [0..<2] \<lparr>lp_n = 2, lp_kappa = [0, Suc 0], lp_M = [0, Suc 0], lp_has_prev = True, lp_has_next = True\<rparr>
     = Inr ([[0], [Suc 0]], \<lparr>lp_n = 2, lp_kappa = [0, Suc 0], lp_M = [0, Suc 0], lp_has_prev = True, lp_has_next = False\<rparr>)"
  by code_simp+

lemma ids2: "make_coalition_id [0] = Suc 0" "make_coalition_id [Suc 0] = 2" "make_coalition_id [0, Suc 0] = 3"
  "make_coalition_id [Suc 0, 0] = 3"
  by code_simp+

text \<open>
  Claim C3: in every partition the Nash-stable selector returns, every player \<open>pid\<close> of every
  coalition \<open>cid1\<close> of the partition has a recorded payoff \<open>b\<close> there, and its recorded payoff
  in every other coalition of the partition joined by \<open>pid\<close>, and in the singleton of \<open>pid\<close>,
  is not definitely greater than \<open>b\<close> (the tolerance-aware comparison of the source, in
  double arithmetic).
\<close>

theorem nash_stable_no_deviation:
  assumes "nash_stable_partition_selector np g vis = Some (Inr best)"
    and "P \<in> set best" "cid1 \<in> set (pi_coalitions P)" "pid \<in> set (coalition_players np cid1)"
  shows "\<exists>b. payoff_of vis cid1 pid = Some b \<and>
          (\<forall>cid2 \<in> set (pi_coalitions P). cid2 \<noteq> cid1 \<longrightarrow>
             (\<exists>a. payoff_of vis (make_coalition_id (coalition_players np cid2 @ [pid])) pid = Some a \<and>
                  \<not> definitely_greater a b)) \<and>
          (\<exists>a. payoff_of vis (make_coalition_id [pid]) pid = Some a \<and> \<not> definitely_greater a b)"
proof -
  from assms(1) obtain p where "nash_loop np g vis p [] = Some (Inr best)"
    by (auto simp: nash_stable_partition_selector_def split: sum.splits)
  from nash_loop_sound[OF this assms(2)]
  have "no_profitable_deviation np vis (pi_coalitions P)" by simp
  with assms(3,4) show ?thesis unfolding no_profitable_deviation_def by blast
qed

lemma near_tie_lookup:
  "near_tie_visited (Suc 0) = Some (solved_info [0 \<mapsto> Fin (5584463537939291 / 2 ^ 52)] (Fin (5584463537939291 / 2 ^ 52)))"
  "near_tie_visited 2 = Some (solved_info [Suc 0 \<mapsto> Fin (5584463537939291 / 2 ^ 52)] (Fin (5584463537939291 / 2 ^ 52)))"
  "near_tie_visited 3 = Some (solved_info [0 \<mapsto> Fin (5584463537939415 / 2 ^ 52), Suc 0 \<mapsto> Fin (5584463537939415 / 2 ^ 52)]
                                (Fin (5584463537939415 / 2 ^ 51)))"
  by (simp_all add: near_tie_visited_def)

lemma near_tie_payoffs:
  "payoff_of near_tie_visited (Suc 0) 0 = Some (Fin (5584463537939291 / 2 ^ 52))"
  "payoff_of near_tie_visited 2 (Suc 0) = Some (Fin (5584463537939291 / 2 ^ 52))"
  "payoff_of near_tie_visited 3 0 = Some (Fin (5584463537939415 / 2 ^ 52))"
  "payoff_of near_tie_visited 3 (Suc 0) = Some (Fin (5584463537939415 / 2 ^ 52))"
  by (simp_all add: payoff_of_def near_tie_lookup solved_info_def)

lemma near_tie_candidates:
  "pi_coalitions (candidate_partition g near_tie_visited [[0, Suc 0]]) = [3]"
  "pi_coalitions (candidate_partition g near_tie_visited [[0], [Suc 0]]) = [Suc 0, 2]"
  by (simp_all add: candidate_partition_def candidate_coalition_def ids2 near_tie_lookup
        default_partition_info_def set_insert_def Let_def)

lemma near_tie_checks:
  "check_nash_stability 2 near_tie_visited [3] = Inr True"
  "check_nash_stability 2 near_tie_visited [Suc 0, 2] = Inr True"
  using near_tie_not_greater
  by (simp_all add: check_nash_stability_def check_player_def deviation_preferred_def map_at_def
        two_fp_players ids2 near_tie_lookup solved_info_def)

lemma near_tie_selected:
  "nash_stable_partition_selector 2 g near_tie_visited =
     Some (Inr [candidate_partition g near_tie_visited [[0, Suc 0]],
                candidate_partition g near_tie_visited [[0], [Suc 0]]])"
proof -
  let ?p0 = "\<lparr>lp_n = 2, lp_kappa = [0, 0], lp_M = [0, 0], lp_has_prev = False, lp_has_next = True\<rparr>"
  let ?p1 = "\<lparr>lp_n = 2, lp_kappa = [0, Suc 0], lp_M = [0, Suc 0], lp_has_prev = True, lp_has_next = True\<rparr>"
  let ?p2 = "\<lparr>lp_n = 2, lp_kappa = [0, Suc 0], lp_M = [0, Suc 0], lp_has_prev = True, lp_has_next = False\<rparr>"
  have a: "nash_loop 2 g near_tie_visited ?p2 best = Some (Inr best)" for best
    by (subst nash_loop.simps) simp
  have b: "nash_loop 2 g near_tie_visited ?p1 best =
           nash_loop 2 g near_tie_visited ?p2 (best @ [candidate_partition g near_tie_visited [[0], [Suc 0]]])" for best
    by (subst nash_loop.simps) (simp add: lp2_steps near_tie_candidates near_tie_checks)
  have c: "nash_loop 2 g near_tie_visited ?p0 [] =
           nash_loop 2 g near_tie_visited ?p1 [candidate_partition g near_tie_visited [[0, Suc 0]]]"
    by (subst nash_loop.simps) (simp add: lp2_steps near_tie_candidates near_tie_checks)
  show ?thesis
    by (simp add: nash_stable_partition_selector_def lp2_steps a b c)
qed

theorem nash_stable_no_deviation_witness:
  "\<exists>best P. nash_stable_partition_selector 2 (\<lambda>cid. Fin 0) near_tie_visited = Some (Inr best) \<and>
      P \<in> set best \<and> pi_coalitions P = [Suc 0, 2] \<and> 0 \<in> set (coalition_players 2 (Suc 0)) \<and>
      (\<exists>b. payoff_of near_tie_visited (Suc 0) 0 = Some b \<and>
          (\<forall>cid2 \<in> set (pi_coalitions P). cid2 \<noteq> Suc 0 \<longrightarrow>
             (\<exists>a. payoff_of near_tie_visited (make_coalition_id (coalition_players 2 cid2 @ [0])) 0 = Some a \<and>
                  \<not> definitely_greater a b)) \<and>
          (\<exists>a. payoff_of near_tie_visited (make_coalition_id [0]) 0 = Some a \<and> \<not> definitely_greater a b))"
proof -
  let ?Q = "candidate_partition (\<lambda>cid. Fin 0) near_tie_visited [[0, Suc 0]]"
  let ?P = "candidate_partition (\<lambda>cid. Fin 0) near_tie_visited [[0], [Suc 0]]"
  have sel: "nash_stable_partition_selector 2 (\<lambda>cid. Fin 0) near_tie_visited = Some (Inr [?Q, ?P])"
    by (rule near_tie_selected)
  have mem: "?P \<in> set [?Q, ?P]" "Suc 0 \<in> set (pi_coalitions ?P)" "0 \<in> set (coalition_players 2 (Suc 0))"
    by (simp_all add: near_tie_candidates two_fp_players)
  have blocks: "pi_coalitions ?P = [Suc 0, 2]" by (rule near_tie_candidates)
  from nash_stable_no_deviation[OF sel mem] sel mem blocks show ?thesis by blast
qed
section \<open>Proofs: an infeasible coalition in the Nash check\<close>

lemma grand_coalition_check_throws:
  assumes "vis 3 = Some c3" "ci_payoffs c3 0 = None"
    and "vis (Suc 0) = Some c1" "ci_payoffs c1 0 = Some a"
  shows "check_nash_stability 2 vis [3] = Inl OutOfRange"
  using assms
  by (simp add: check_nash_stability_def check_player_def deviation_preferred_def map_at_def
        two_fp_players ids2)

lemma grand_coalition_candidate:
  "vis 3 = Some c3 \<Longrightarrow> pi_coalitions (candidate_partition g vis [[0, Suc 0]]) = [3]"
  by (simp add: candidate_partition_def candidate_coalition_def ids2
        default_partition_info_def set_insert_def Let_def)

lemma grand_coalition_selector_throws:
  assumes "vis 3 = Some c3" "ci_payoffs c3 0 = None"
    and "vis (Suc 0) = Some c1" "ci_payoffs c1 0 = Some a"
  shows "nash_stable_partition_selector 2 g vis = Some (Inl OutOfRange)"
proof -
  let ?p0 = "\<lparr>lp_n = 2, lp_kappa = [0, 0], lp_M = [0, 0], lp_has_prev = False, lp_has_next = True\<rparr>"
  have "nash_loop 2 g vis ?p0 [] = Some (Inl OutOfRange)"
    by (subst nash_loop.simps)
       (simp add: lp2_steps grand_coalition_candidate[where vis = vis, OF assms(1)]
          grand_coalition_check_throws[OF assms])
  then show ?thesis by (simp add: nash_stable_partition_selector_def lp2_steps)
qed

text \<open>
  Claim C2 at the trigger whose grand coalition is infeasible while each provider alone is
  solved: the Nash check of the partition \<open>{{0, 1}}\<close> reads the payoff of player 0 in the
  unsolved coalition with \<open>payoffs.at(pid)\<close>, the map is empty, and \<open>std::out_of_range\<close>
  leaves \<open>analyze_coalitions\<close>: the failure is not absorbed in the trigger.
\<close>

theorem infeasible_grand_coalition_throws:
  "form_coalitions (experiment_setup two_fp_scenario) infeasible_grand 100 [0, 1] (\<lambda>cid. NaN)
     = Some (Inl OutOfRange)"
proof -
  let ?ex = "experiment_setup two_fp_scenario"
  have n: "num_fps two_fp_scenario = 2" by (simp add: two_fp_scenario_eq)
  have h: "0 < num_fps two_fp_scenario" "num_fps two_fp_scenario \<le> 64" by (simp_all add: n)
  have r3: "(1::nat) \<le> 3" "(3::nat) < 2 ^ num_fps two_fp_scenario" by (simp_all add: n)
  have r1: "(1::nat) \<le> Suc 0" "Suc 0 < 2 ^ num_fps two_fp_scenario" by (simp_all add: n)
  have u3: "solve infeasible_grand (coal_fns ?ex (coalition_players (num_fps two_fp_scenario) 3))
              (coal_vms ?ex [0, 1] (coalition_players (num_fps two_fp_scenario) 3)) = default_vm_allocation"
    by (simp add: n two_fp_players two_fp_members infeasible_grand_def)
  then have "\<not> va_solved (solve infeasible_grand (coal_fns ?ex (coalition_players (num_fps two_fp_scenario) 3))
              (coal_vms ?ex [0, 1] (coalition_players (num_fps two_fp_scenario) 3)))"
    by (simp add: default_vm_allocation_def)
  from unsolved_coalition_final[OF h r3 this, of 100 "\<lambda>cid. NaN"]
  obtain st c3 where st: "enumerate_coalitions ?ex infeasible_grand 100 [0, 1] (\<lambda>cid. NaN) = Some (Inr st)"
    and c3: "visited_coalitions st 3 = Some c3" "ci_payoffs c3 0 = None"
    by (auto simp: default_coalition_info_def)
  have "va_solved (solve infeasible_grand (coal_fns ?ex (coalition_players (num_fps two_fp_scenario) (Suc 0)))
              (coal_vms ?ex [0, 1] (coalition_players (num_fps two_fp_scenario) (Suc 0))))"
    by (simp add: n two_fp_players two_fp_members infeasible_grand_def)
  from solved_coalition_final[OF h r1 this, of 100 "\<lambda>cid. NaN"] st
  obtain c1 g' where c1: "visited_coalitions st (Suc 0) = Some c1"
    "ci_payoffs c1 = shapley_value infeasible_grand g' (coalition_players (num_fps two_fp_scenario) (Suc 0))"
    by auto
  from c1(2) have p1: "ci_payoffs c1 0 = Some (g' (Suc 0))"
    by (simp add: n two_fp_players infeasible_grand_def ids2)
  have "nash_stable_partition_selector 2 (game st) (visited_coalitions st) = Some (Inl OutOfRange)"
    by (rule grand_coalition_selector_throws[OF c3 c1(1) p1])
  moreover have "num_fps (ex_scen ?ex) = 2" by (simp add: experiment_setup_def n)
  ultimately show ?thesis
    unfolding form_coalitions_def st by simp
qed

text \<open>The part of the claim that holds: a coalition with a player and no recorded payoff
  for it is in no partition the selector returns.\<close>

lemma unsolved_never_selected:
  assumes "nash_stable_partition_selector np g vis = Some (Inr best)"
    and "P \<in> set best" "cid \<in> set (pi_coalitions P)" "pid \<in> set (coalition_players np cid)"
  shows "payoff_of vis cid pid \<noteq> None"
proof -
  from assms(1) obtain p where "nash_loop np g vis p [] = Some (Inr best)"
    by (auto simp: nash_stable_partition_selector_def split: sum.splits)
  from nash_loop_sound[OF this assms(2)]
  have "no_profitable_deviation np vis (pi_coalitions P)" by simp
  with assms(3,4) show ?thesis unfolding no_profitable_deviation_def by fastforce
qed

section \<open>Proofs: the end of the simulation\<close>

lemma check_stats_iff: "check_stats es \<longleftrightarrow> (\<forall>e \<in> set es. cme_done e \<or> cme_unstable e)"
  by (induction es) auto

lemma check_end_of_simulation_iff:
  "check_end_of_simulation s \<longleftrightarrow>
     (sim_done s \<or> sim_max_num_rep s \<le> sim_num_rep s \<or>
      (\<forall>e \<in> set (fp_coal_profit_ci_stats s). cme_done e \<or> cme_unstable e))"
  by (simp add: check_end_of_simulation_def do_check_end_of_simulation_def check_stats_iff)

text \<open>
  Claim C5 as stated fails: with every coalition-profit estimator done, an alone-profit
  estimator that is neither done nor unstable, and replications left, the driver's test
  already answers that the simulation is over.
\<close>

theorem claimed_end_of_simulation_counterexample:
  "check_end_of_simulation
     \<lparr>sim_max_num_rep = 10, sim_num_rep = 2, sim_done = False,
      fp_coal_profit_ci_stats = [\<lparr>cme_done = True, cme_unstable = False\<rparr>],
      fp_alone_profit_ci_stats = [\<lparr>cme_done = False, cme_unstable = False\<rparr>]\<rparr>
   \<and> \<not> claimed_end_of_simulation
     \<lparr>sim_max_num_rep = 10, sim_num_rep = 2, sim_done = False,
      fp_coal_profit_ci_stats = [\<lparr>cme_done = True, cme_unstable = False\<rparr>],
      fp_alone_profit_ci_stats = [\<lparr>cme_done = False, cme_unstable = False\<rparr>]\<rparr>"
  by (simp add: check_end_of_simulation_def do_check_end_of_simulation_def claimed_end_of_simulation_def)

lemma run_loop_sound:
  assumes "run_loop r s = Some s'"
  shows "\<exists>k. s' = (r ^^ k) s \<and> check_end_of_simulation ((r ^^ k) s) \<and>
         (\<forall>j<k. \<not> check_end_of_simulation ((r ^^ j) s))"
proof (rule run_loop.raw_induct
    [where P = "\<lambda>r s s'. \<exists>k. s' = (r ^^ k) s \<and> check_end_of_simulation ((r ^^ k) s) \<and>
         (\<forall>j<k. \<not> check_end_of_simulation ((r ^^ j) s))", OF _ assms])
  fix run_loop' :: "(simulator \<Rightarrow> simulator) \<Rightarrow> simulator \<Rightarrow> simulator option" and r s s'
  assume IH: "\<And>r s s'. run_loop' r s = Some s' \<Longrightarrow>
      \<exists>k. s' = (r ^^ k) s \<and> check_end_of_simulation ((r ^^ k) s) \<and>
         (\<forall>j<k. \<not> check_end_of_simulation ((r ^^ j) s))"
    and eq: "(if check_end_of_simulation s then Some s else run_loop' r (r s)) = Some s'"
  show "\<exists>k. s' = (r ^^ k) s \<and> check_end_of_simulation ((r ^^ k) s) \<and>
         (\<forall>j<k. \<not> check_end_of_simulation ((r ^^ j) s))"
  proof (cases "check_end_of_simulation s")
    case True
    with eq have "s' = s" by simp
    with True show ?thesis by (intro exI[of _ 0]) simp
  next
    case False
    with eq have "run_loop' r (r s) = Some s'" by simp
    from IH[OF this] obtain k where k: "s' = (r ^^ k) (r s)"
      "check_end_of_simulation ((r ^^ k) (r s))"
      "\<forall>j<k. \<not> check_end_of_simulation ((r ^^ j) (r s))" by blast
    have "\<forall>j<Suc k. \<not> check_end_of_simulation ((r ^^ j) s)"
    proof (intro allI impI)
      fix j assume "j < Suc k"
      show "\<not> check_end_of_simulation ((r ^^ j) s)"
      proof (cases j)
        case 0 with False show ?thesis by simp
      next
        case (Suc j')
        with \<open>j < Suc k\<close> k(3) show ?thesis by (simp add: funpow_swap1)
      qed
    qed
    with k(1,2) show ?thesis by (intro exI[of _ "Suc k"]) (simp add: funpow_swap1)
  qed
qed

lemma run_loop_complete:
  "check_end_of_simulation ((r ^^ k) s) \<Longrightarrow>
   (\<forall>j<k. \<not> check_end_of_simulation ((r ^^ j) s)) \<Longrightarrow>
   run_loop r s = Some ((r ^^ k) s)"
proof (induction k arbitrary: s)
  case 0
  then show ?case by (subst run_loop.simps) simp
next
  case (Suc k)
  from Suc.prems(2) have ns: "\<not> check_end_of_simulation s" by (metis funpow_0 zero_less_Suc)
  have a: "check_end_of_simulation ((r ^^ k) (r s))" using Suc.prems(1) by (simp add: funpow_swap1)
  have b: "\<forall>j<k. \<not> check_end_of_simulation ((r ^^ j) (r s))"
  proof (intro allI impI)
    fix j assume "j < k"
    then have "Suc j < Suc k" by simp
    with Suc.prems(2) have "\<not> check_end_of_simulation ((r ^^ Suc j) s)" by blast
    then show "\<not> check_end_of_simulation ((r ^^ j) (r s))" by (simp add: funpow_swap1)
  qed
  from Suc.IH[OF a b] ns show ?case by (subst run_loop.simps) (simp add: funpow_swap1)
qed

text \<open>
  Claim C5 (amended): the run ends exactly at the first round at which the \<open>done_\<close> flag is
  set, or the number of replications has reached \<open>max_num_replications\<close>, or every
  coalition-profit estimator reports done or unstable; the alone-profit estimators are not
  consulted.
\<close>

theorem run_ends_exactly_when:
  "run_loop replication s = Some s' \<longleftrightarrow>
     (\<exists>k. s' = (replication ^^ k) s \<and>
          (sim_done s' \<or> sim_max_num_rep s' \<le> sim_num_rep s' \<or>
           (\<forall>e \<in> set (fp_coal_profit_ci_stats s'). cme_done e \<or> cme_unstable e)) \<and>
          (\<forall>j<k. \<not> check_end_of_simulation ((replication ^^ j) s)))"
  using run_loop_sound[of replication s s'] run_loop_complete[where r = replication and s = s]
  by (auto simp: check_end_of_simulation_def do_check_end_of_simulation_def check_stats_iff)

theorem run_ends_exactly_when_witness:
  "run_loop (\<lambda>s. s\<lparr>sim_num_rep := Suc (sim_num_rep s)\<rparr>)
     \<lparr>sim_max_num_rep = 2, sim_num_rep = 0, sim_done = False,
      fp_coal_profit_ci_stats = [\<lparr>cme_done = False, cme_unstable = False\<rparr>],
      fp_alone_profit_ci_stats = [\<lparr>cme_done = True, cme_unstable = False\<rparr>]\<rparr>
   = Some
     \<lparr>sim_max_num_rep = 2, sim_num_rep = 2, sim_done = False,
      fp_coal_profit_ci_stats = [\<lparr>cme_done = False, cme_unstable = False\<rparr>],
      fp_alone_profit_ci_stats = [\<lparr>cme_done = True, cme_unstable = False\<rparr>]\<rparr>"
proof -
  have "\<forall>j<Suc (Suc 0). \<not> check_end_of_simulation
     (((\<lambda>s. s\<lparr>sim_num_rep := Suc (sim_num_rep s)\<rparr>) ^^ j)
     \<lparr>sim_max_num_rep = 2, sim_num_rep = 0, sim_done = False,
      fp_coal_profit_ci_stats = [\<lparr>cme_done = False, cme_unstable = False\<rparr>],
      fp_alone_profit_ci_stats = [\<lparr>cme_done = True, cme_unstable = False\<rparr>]\<rparr>)"
    by (simp add: less_Suc_eq check_end_of_simulation_def do_check_end_of_simulation_def)
  then show ?thesis
    unfolding run_ends_exactly_when
    by (intro exI[of _ "Suc (Suc 0)"]) simp
qed

section \<open>Proofs: the shape of a scenario\<close>

text \<open>
  Claim C7 on the file of two providers and one VM category: \<open>make_scenario\<close> succeeds, and
  the two VM tables have \<open>num_fps = 2\<close> rows, the second one empty, where the claim promises
  \<open>num_vm_categories = 1\<close> row.
\<close>

theorem make_scenario_vm_tables_two_fps:
  "map_sum id (\<lambda>s. (num_vm_categories s, num_fn_categories s, vm_cpu_requirements s, vm_ram_requirements s))
     (make_scenario (fresh_scenario 0 0 0 0) two_fp_lines)
   = Inr (1, 1, [[1 / 2], []], [[1 / 2], []])"
  by (simp add: make_scenario_def fresh_scenario_def two_fp_lines_def read_matrix_def read_vector_def
      read_workloads_def resize_def post_parsing_checks_def rows_have_def upt_conv_Cons numeral_2_eq_2)

section \<open>Proofs: one step of the partition iterator\<close>

lemma fold_pair_update:
  "fold (\<lambda>j (k, m). (k[j := f j], m[j := g j])) js (k, m) =
     (fold (\<lambda>j k. k[j := f j]) js k, fold (\<lambda>j m. m[j := g j]) js m)"
  by (induction js arbitrary: k m) simp_all

lemma fold_update_length [simp]: "length (fold (\<lambda>j xs. xs[j := f j]) js xs) = length xs"
  by (induction js arbitrary: xs) simp_all




lemma step_fwd_other [simp]:
  "length (lp_kappa (lp_step_fwd i p)) = length (lp_kappa p)"
  "length (lp_M (lp_step_fwd i p)) = length (lp_M p)"
  "lp_n (lp_step_fwd i p) = lp_n p"
  "lp_has_prev (lp_step_fwd i p) = True"
  "lp_has_next (lp_step_fwd i p) = lp_has_next p"
  by (simp_all add: lp_step_fwd_def lp_fill_fwd_def fold_pair_update Let_def)



lemma step_bwd_other [simp]:
  "length (lp_kappa (lp_step_bwd i p)) = length (lp_kappa p)"
  "length (lp_M (lp_step_bwd i p)) = length (lp_M p)"
  "lp_n (lp_step_bwd i p) = lp_n p"
  "lp_has_next (lp_step_bwd i p) = True"
  "lp_has_prev (lp_step_bwd i p) = lp_has_prev p"
  by (simp_all add: lp_step_bwd_def lp_fill_bwd_def fold_pair_update Let_def)


lemma scan_fwd_none:
  "(\<forall>i'. 0 < i' \<and> i' \<le> j \<longrightarrow> \<not> lp_kappa p ! i' \<le> lp_M p ! (i' - 1)) \<Longrightarrow> lp_scan_fwd j p = p"
proof (induction j)
  case 0
  then show ?case by simp
next
  case (Suc j)
  then have "\<not> lp_kappa p ! Suc j \<le> lp_M p ! j" by (metis diff_Suc_1 order_refl zero_less_Suc)
  with Suc show ?case by simp
qed


lemma scan_bwd_none:
  "(\<forall>i'. 0 < i' \<and> i' \<le> j \<longrightarrow> lp_kappa p ! i' = 0) \<Longrightarrow> lp_scan_bwd j p = p"
  by (induction j) simp_all












lemma last_string_length [simp]: "length (lp_last_string n) = n"
  by (simp add: lp_last_string_def)



lemma invariant_flags [simp]:
  "lp_invariant (p\<lparr>lp_has_next := b\<rparr>) = lp_invariant p"
  "lp_invariant (p\<lparr>lp_has_prev := b\<rparr>) = lp_invariant p"
  by (simp_all add: lp_invariant_def)







section \<open>Proofs: one step back and forth of the subset iterator\<close>







section \<open>Proofs: the iterators step back and forth\<close>










section \<open>Proofs: the order in which events fire\<close>









end
